theory Spec2Isabelle
  imports Complex_Main "HOL-Library.Multiset"
begin

section \<open>Numbers of the Python program\<close>

text \<open>
  The selector \<^verbatim>\<open>find_active_space\<close> of \<^verbatim>\<open>cinoas.py\<close> computes with two kinds
  of numbers: Python integers (the literal \<^verbatim>\<open>0\<close> the accumulators start from, the
  array sizes) and numpy \<^verbatim>\<open>float64\<close> scalars (the occupations read from the arrays
  and everything computed from them). Finite \<^verbatim>\<open>float64\<close> values are idealised as
  exact rationals: rounding is not modelled. What is modelled is the difference that
  decides whether a division raises: integer by integer division by zero raises
  \<^verbatim>\<open>ZeroDivisionError\<close>, whereas a division in which a \<^verbatim>\<open>float64\<close> takes part
  follows IEEE-754 and yields \<^verbatim>\<open>nan\<close> or \<^verbatim>\<open>inf\<close> (numpy only warns).
\<close>

datatype error = ZeroDivisionError | IndexError

datatype pynum = PyInt int | NpFloat rat

fun pval :: "pynum \<Rightarrow> rat" where
  "pval (PyInt n) = of_int n"
| "pval (NpFloat x) = x"

fun padd :: "pynum \<Rightarrow> pynum \<Rightarrow> pynum" where
  "padd (PyInt a) (PyInt b) = PyInt (a + b)"
| "padd (PyInt a) (NpFloat y) = NpFloat (of_int a + y)"
| "padd (NpFloat x) b = NpFloat (x + pval b)"

fun psub :: "pynum \<Rightarrow> pynum \<Rightarrow> pynum" where
  "psub (PyInt a) (PyInt b) = PyInt (a - b)"
| "psub (PyInt a) (NpFloat y) = NpFloat (of_int a - y)"
| "psub (NpFloat x) b = NpFloat (x - pval b)"

text \<open>The value of a true division: a finite number or one of the IEEE special values.\<close>

datatype quotient = Finite rat | PosInf | NegInf | NaN

definition fdiv :: "rat \<Rightarrow> rat \<Rightarrow> quotient" where
  "fdiv a b =
     (if b = 0 then (if a = 0 then NaN else if 0 < a then PosInf else NegInf)
      else Finite (a / b))"

fun truediv :: "pynum \<Rightarrow> pynum \<Rightarrow> error + quotient" where
  "truediv (PyInt a) (PyInt b) =
     (if b = 0 then Inl ZeroDivisionError else Inr (Finite (of_int a / of_int b)))"
| "truediv (PyInt a) (NpFloat y) = Inr (fdiv (of_int a) y)"
| "truediv (NpFloat x) b = Inr (fdiv x (pval b))"

text \<open>The comparison \<^verbatim>\<open>q > threshold\<close>; every comparison with \<^verbatim>\<open>nan\<close> is false.\<close>

fun qgt :: "quotient \<Rightarrow> rat \<Rightarrow> bool" where
  "qgt (Finite x) t = (t < x)"
| "qgt PosInf t = True"
| "qgt NegInf t = False"
| "qgt NaN t = False"

text \<open>Python's \<^verbatim>\<open>sum\<close> of an array: it starts from the integer \<^verbatim>\<open>0\<close>.\<close>

definition py_sum :: "rat list \<Rightarrow> pynum" where
  "py_sum arr = foldl padd (PyInt 0) (map NpFloat arr)"

section \<open>Data\<close>

text \<open>
  A \<^verbatim>\<open>psi4.core.Vector\<close> is modelled by the list of its per-irrep arrays, so
  \<^verbatim>\<open>nirrep()\<close> is the length of the list. A tagged occupation is the triple
  \<^verbatim>\<open>(irrep, occus, index_in_irrep)\<close> the source builds. The options dictionary is a
  record of optional entries (\<^verbatim>\<open>print_level\<close> only drives printing and is left out);
  the results dictionary is a record whose optional fields are the keys that are not
  always stored. Occupations and thresholds are finite \<^verbatim>\<open>float64\<close> values, a fixed
  count is a non-negative integer. The two vectors of a call come from one wavefunction
  and so have the same number of irreps.
\<close>

type_synonym vector = "rat list list"

type_synonym orb = "nat \<times> rat \<times> nat"

definition irrep_of :: "orb \<Rightarrow> nat" where
  "irrep_of x = fst x"

definition occus_of :: "orb \<Rightarrow> rat" where
  "occus_of x = fst (snd x)"

record options =
  threshold_occ :: "rat option"
  threshold_vir :: "rat option"
  num_act_occ :: "nat option"
  num_act_vir :: "nat option"

record results =
  active :: "nat list"
  nact :: nat
  nact_occ :: "nat option"
  nact_vir :: "nat option"
  sigma_o :: "quotient option"
  sigma_v :: "quotient option"
  occ_denominator :: pynum
  vir_denominator :: pynum

text \<open>The local variables the four selection blocks read and update.\<close>

record frame =
  f_active :: "nat list"
  f_occ_numerator :: pynum
  f_vir_numerator :: pynum
  f_nact_occ :: "nat option"
  f_nact_vir :: "nat option"
  f_sigma_o :: "quotient option"
  f_sigma_v :: "quotient option"

section \<open>Tagging the occupations and the denominators (lines 122 to 148)\<close>

definition tag_block :: "nat \<Rightarrow> rat list \<Rightarrow> orb list" where
  "tag_block isym arr = map (\<lambda>(index_in_irrep, occus). (isym, occus, index_in_irrep)) (enumerate 0 arr)"

text \<open>The loop over \<^verbatim>\<open>zip(noocs_occ.to_array(), noocs_vir.to_array())\<close>; \<open>isym\<close> is the
  counter \<^verbatim>\<open>sym\<close> of the source.\<close>

fun collect :: "(rat list \<times> rat list) list \<Rightarrow> nat \<Rightarrow> orb list \<times> orb list \<times> pynum \<times> pynum
    \<Rightarrow> orb list \<times> orb list \<times> pynum \<times> pynum" where
  "collect [] isym acc = acc"
| "collect ((noocs_occupied_h, noocs_virtual_h) # rest) isym (occd, vird, od, vd) =
     collect rest (isym + 1)
       (occd @ tag_block isym noocs_occupied_h,
        vird @ tag_block isym noocs_virtual_h,
        padd od (psub (PyInt (int (length noocs_occupied_h))) (py_sum noocs_occupied_h)),
        padd vd (py_sum noocs_virtual_h))"

text \<open>
  With one irrep \<^verbatim>\<open>to_array()\<close> is the array itself; otherwise it is the tuple of
  the arrays, and the loop runs over the zipped tuples.
\<close>

definition spectra :: "vector \<Rightarrow> vector \<Rightarrow> orb list \<times> orb list \<times> pynum \<times> pynum" where
  "spectra noocs_occ noocs_vir =
     (if length noocs_occ = 1
      then (tag_block 0 (hd noocs_occ),
            tag_block 0 (hd noocs_vir),
            padd (PyInt 0) (psub (PyInt (int (length (hd noocs_occ)))) (py_sum (hd noocs_occ))),
            padd (PyInt 0) (py_sum (hd noocs_vir)))
      else collect (zip noocs_occ noocs_vir) 0 ([], [], PyInt 0, PyInt 0))"

definition occ_den :: "vector \<Rightarrow> vector \<Rightarrow> pynum" where
  "occ_den noocs_occ noocs_vir = fst (snd (snd (spectra noocs_occ noocs_vir)))"

definition vir_den :: "vector \<Rightarrow> vector \<Rightarrow> pynum" where
  "vir_den noocs_occ noocs_vir = snd (snd (snd (spectra noocs_occ noocs_vir)))"

section \<open>Sorting (lines 150 and 151)\<close>

text \<open>
  \<^verbatim>\<open>list.sort\<close> is stable. With \<^verbatim>\<open>reverse=True\<close> it reverses the list, sorts it
  stably in ascending order and reverses the result, so that equal keys keep their
  original order in the descending list as well.
\<close>

definition noocs_occupied :: "vector \<Rightarrow> vector \<Rightarrow> orb list" where
  "noocs_occupied noocs_occ noocs_vir = sort_key occus_of (fst (spectra noocs_occ noocs_vir))"

definition noocs_virtual :: "vector \<Rightarrow> vector \<Rightarrow> orb list" where
  "noocs_virtual noocs_occ noocs_vir =
     rev (sort_key occus_of (rev (fst (snd (spectra noocs_occ noocs_vir)))))"

section \<open>The selection loops (lines 156 to 204)\<close>

text \<open>
  The occupied and the virtual threshold loops differ only in the contribution of an
  orbital to the numerator (\<^verbatim>\<open>1-occus\<close> and \<^verbatim>\<open>occus\<close>), which is the parameter
  \<open>c\<close>; the state is the numerator, the list \<^verbatim>\<open>active\<close> and the manifold's counter.
  \<^verbatim>\<open>active[irrep] += 1\<close> raises \<^verbatim>\<open>IndexError\<close> out of range.
\<close>

definition occ_contribution :: "rat \<Rightarrow> rat" where
  "occ_contribution occus = 1 - occus"

definition vir_contribution :: "rat \<Rightarrow> rat" where
  "vir_contribution occus = occus"

fun threshold_loop :: "(rat \<Rightarrow> rat) \<Rightarrow> rat \<Rightarrow> pynum \<Rightarrow> orb list \<Rightarrow> pynum \<times> nat list \<times> nat
    \<Rightarrow> error + pynum \<times> nat list \<times> nat" where
  "threshold_loop c thr den [] st = Inr st"
| "threshold_loop c thr den ((irrep, occus, i) # rest) (numerator, act, n) =
     (let numerator' = padd numerator (NpFloat (c occus)) in
      case truediv numerator' den of
        Inl e \<Rightarrow> Inl e
      | Inr q \<Rightarrow>
          if qgt q thr then Inr (psub numerator' (NpFloat (c occus)), act, n)
          else if irrep < length act
          then threshold_loop c thr den rest (numerator', act[irrep := act ! irrep + 1], n + 1)
          else Inl IndexError)"

text \<open>
  The fixed-count loop \<^verbatim>\<open>for k in range(nact)\<close> reads \<^verbatim>\<open>noocs[k]\<close>, which raises
  \<^verbatim>\<open>IndexError\<close> past the end of the list.
\<close>

fun fixed_loop :: "(rat \<Rightarrow> rat) \<Rightarrow> orb list \<Rightarrow> nat list \<Rightarrow> pynum \<times> nat list
    \<Rightarrow> error + pynum \<times> nat list" where
  "fixed_loop c noocs [] st = Inr st"
| "fixed_loop c noocs (k # ks) (numerator, act) =
     (if k < length noocs
      then (case noocs ! k of (irrep, occus, i) \<Rightarrow>
              if irrep < length act
              then fixed_loop c noocs ks
                     (padd numerator (NpFloat (c occus)), act[irrep := act ! irrep + 1])
              else Inl IndexError)
      else Inl IndexError)"

definition select_threshold_occ :: "options \<Rightarrow> orb list \<Rightarrow> pynum \<Rightarrow> frame \<Rightarrow> error + frame" where
  "select_threshold_occ opts noocs den fr =
     (case threshold_occ opts of
        None \<Rightarrow> Inr fr
      | Some thr \<Rightarrow>
          (case threshold_loop occ_contribution thr den noocs (f_occ_numerator fr, f_active fr, 0) of
             Inl e \<Rightarrow> Inl e
           | Inr (numerator, act, n) \<Rightarrow>
               (case truediv numerator den of
                  Inl e \<Rightarrow> Inl e
                | Inr q \<Rightarrow> Inr (fr\<lparr>f_active := act, f_occ_numerator := numerator,
                                   f_sigma_o := Some q, f_nact_occ := Some n\<rparr>))))"

definition select_threshold_vir :: "options \<Rightarrow> orb list \<Rightarrow> pynum \<Rightarrow> frame \<Rightarrow> error + frame" where
  "select_threshold_vir opts noocs den fr =
     (case threshold_vir opts of
        None \<Rightarrow> Inr fr
      | Some thr \<Rightarrow>
          (case threshold_loop vir_contribution thr den noocs (f_vir_numerator fr, f_active fr, 0) of
             Inl e \<Rightarrow> Inl e
           | Inr (numerator, act, n) \<Rightarrow>
               (case truediv numerator den of
                  Inl e \<Rightarrow> Inl e
                | Inr q \<Rightarrow> Inr (fr\<lparr>f_active := act, f_vir_numerator := numerator,
                                   f_sigma_v := Some q, f_nact_vir := Some n\<rparr>))))"

definition select_fixed_occ :: "options \<Rightarrow> orb list \<Rightarrow> pynum \<Rightarrow> frame \<Rightarrow> error + frame" where
  "select_fixed_occ opts noocs den fr =
     (case num_act_occ opts of
        None \<Rightarrow> Inr fr
      | Some k \<Rightarrow>
          (case fixed_loop occ_contribution noocs [0..<k] (f_occ_numerator fr, f_active fr) of
             Inl e \<Rightarrow> Inl e
           | Inr (numerator, act) \<Rightarrow>
               (case truediv numerator den of
                  Inl e \<Rightarrow> Inl e
                | Inr q \<Rightarrow> Inr (fr\<lparr>f_active := act, f_occ_numerator := numerator,
                                   f_sigma_o := Some q\<rparr>))))"

definition select_fixed_vir :: "options \<Rightarrow> orb list \<Rightarrow> pynum \<Rightarrow> frame \<Rightarrow> error + frame" where
  "select_fixed_vir opts noocs den fr =
     (case num_act_vir opts of
        None \<Rightarrow> Inr fr
      | Some k \<Rightarrow>
          (case fixed_loop vir_contribution noocs [0..<k] (f_vir_numerator fr, f_active fr) of
             Inl e \<Rightarrow> Inl e
           | Inr (numerator, act) \<Rightarrow>
               (case truediv numerator den of
                  Inl e \<Rightarrow> Inl e
                | Inr q \<Rightarrow> Inr (fr\<lparr>f_active := act, f_vir_numerator := numerator,
                                   f_sigma_v := Some q\<rparr>))))"

section \<open>The selector\<close>

definition then_do :: "error + 'a \<Rightarrow> ('a \<Rightarrow> error + 'b) \<Rightarrow> error + 'b" where
  "then_do r f = (case r of Inl e \<Rightarrow> Inl e | Inr x \<Rightarrow> f x)"

definition initial_frame :: "vector \<Rightarrow> frame" where
  "initial_frame noocs_occ =
     \<lparr>f_active = replicate (length noocs_occ) 0,
      f_occ_numerator = PyInt 0, f_vir_numerator = PyInt 0,
      f_nact_occ = None, f_nact_vir = None, f_sigma_o = None, f_sigma_v = None\<rparr>"

definition make_results :: "vector \<Rightarrow> vector \<Rightarrow> frame \<Rightarrow> results" where
  "make_results noocs_occ noocs_vir fr =
     \<lparr>active = f_active fr, nact = sum_list (f_active fr),
      nact_occ = f_nact_occ fr, nact_vir = f_nact_vir fr,
      sigma_o = f_sigma_o fr, sigma_v = f_sigma_v fr,
      occ_denominator = occ_den noocs_occ noocs_vir,
      vir_denominator = vir_den noocs_occ noocs_vir\<rparr>"

definition find_active_space :: "vector \<Rightarrow> vector \<Rightarrow> options \<Rightarrow> error + results" where
  "find_active_space noocs_occ noocs_vir opts =
     then_do (select_threshold_occ opts (noocs_occupied noocs_occ noocs_vir)
                (occ_den noocs_occ noocs_vir) (initial_frame noocs_occ)) (\<lambda>fr1.
     then_do (select_threshold_vir opts (noocs_virtual noocs_occ noocs_vir)
                (vir_den noocs_occ noocs_vir) fr1) (\<lambda>fr2.
     then_do (select_fixed_occ opts (noocs_occupied noocs_occ noocs_vir)
                (occ_den noocs_occ noocs_vir) fr2) (\<lambda>fr3.
     then_do (select_fixed_vir opts (noocs_virtual noocs_occ noocs_vir)
                (vir_den noocs_occ noocs_vir) fr3) (\<lambda>fr4.
     Inr (make_results noocs_occ noocs_vir fr4)))))"

section \<open>Notions used to state the properties\<close>

text \<open>
  None of the following is part of the program. \<open>contribs\<close> is the numerator a list
  of orbitals adds up to, \<open>add_counts\<close> the list \<^verbatim>\<open>active\<close> after committing a list
  of orbitals, \<open>thr_count\<close> the number of iterations of the threshold loop that commit
  their orbital, \<open>tags\<close> the tagged blocks in the order the source appends them, and
  \<open>den_ok\<close> relates a denominator to the orbitals of its manifold: it is the Python
  integer \<^verbatim>\<open>0\<close> when there are none and a \<^verbatim>\<open>float64\<close> otherwise, which is what
  \<open>is_float\<close> tests. \<open>occ_blocks\<close> and \<open>vir_blocks\<close> are the arrays the source
  tags, in order: the first array when there is one irrep, the zipped ones otherwise.
\<close>

definition contribs :: "(rat \<Rightarrow> rat) \<Rightarrow> orb list \<Rightarrow> rat" where
  "contribs c xs = sum_list (map (\<lambda>x. c (occus_of x)) xs)"

definition add_counts :: "nat list \<Rightarrow> orb list \<Rightarrow> nat list" where
  "add_counts act xs = map (\<lambda>h. act ! h + length (filter (\<lambda>x. irrep_of x = h) xs)) [0..<length act]"

fun thr_count :: "(rat \<Rightarrow> rat) \<Rightarrow> rat \<Rightarrow> rat \<Rightarrow> rat \<Rightarrow> orb list \<Rightarrow> nat" where
  "thr_count c thr d x [] = 0"
| "thr_count c thr d x (y # ys) =
     (if qgt (fdiv (x + c (occus_of y)) d) thr then 0
      else Suc (thr_count c thr d (x + c (occus_of y)) ys))"

fun tags :: "nat \<Rightarrow> rat list list \<Rightarrow> orb list" where
  "tags s [] = []"
| "tags s (arr # rest) = tag_block s arr @ tags (Suc s) rest"

definition den_ok :: "(rat \<Rightarrow> rat) \<Rightarrow> pynum \<Rightarrow> orb list \<Rightarrow> bool" where
  "den_ok c d xs = (if xs = [] then d = PyInt 0 else d = NpFloat (contribs c xs))"

definition is_float :: "pynum \<Rightarrow> bool" where
  "is_float d = (case d of PyInt n \<Rightarrow> False | NpFloat x \<Rightarrow> True)"

definition occ_blocks :: "vector \<Rightarrow> vector \<Rightarrow> rat list list" where
  "occ_blocks noocs_occ noocs_vir =
     (if length noocs_occ = 1 then [hd noocs_occ] else map fst (zip noocs_occ noocs_vir))"

definition vir_blocks :: "vector \<Rightarrow> vector \<Rightarrow> rat list list" where
  "vir_blocks noocs_occ noocs_vir =
     (if length noocs_occ = 1 then [hd noocs_vir] else map snd (zip noocs_occ noocs_vir))"

text \<open>
  \<open>n_thr\<close> and \<open>n_fix\<close> are the numbers of orbitals a threshold block and a
  fixed-count block commit (none when the option is absent), \<open>committed\<close> lists the
  orbitals the four blocks commit in the order they run, and \<open>fraction\<close> is the value
  stored under \<^verbatim>\<open>sigma_o\<close> or \<^verbatim>\<open>sigma_v\<close>. \<open>block_counts n xs\<close> counts, for each
  of \<open>n\<close> blocks, the orbitals of \<open>xs\<close> tagged with it. \<open>exceeds\<close> is the source's
  test \<^verbatim>\<open>numerator/denominator > threshold\<close> on the numerator a list of orbitals adds
  up to; \<open>stops_at\<close> says that \<open>n\<close> is where the threshold loop stops (no orbital up
  to the \<open>n\<close>-th crosses the threshold and the next one, if any, does), and
  \<open>longest_prefix\<close> that the first \<open>n\<close> orbitals are the longest prefix whose
  cumulative fraction does not exceed the threshold.
\<close>

definition n_thr :: "(rat \<Rightarrow> rat) \<Rightarrow> rat option \<Rightarrow> pynum \<Rightarrow> orb list \<Rightarrow> nat" where
  "n_thr c t den noocs = (case t of None \<Rightarrow> 0 | Some thr \<Rightarrow> thr_count c thr (pval den) 0 noocs)"

definition n_fix :: "nat option \<Rightarrow> nat" where
  "n_fix k = (case k of None \<Rightarrow> 0 | Some n \<Rightarrow> n)"

definition committed :: "vector \<Rightarrow> vector \<Rightarrow> options \<Rightarrow> orb list" where
  "committed noocs_occ noocs_vir opts =
     take (n_thr occ_contribution (threshold_occ opts) (occ_den noocs_occ noocs_vir)
            (noocs_occupied noocs_occ noocs_vir)) (noocs_occupied noocs_occ noocs_vir) @
     take (n_thr vir_contribution (threshold_vir opts) (vir_den noocs_occ noocs_vir)
            (noocs_virtual noocs_occ noocs_vir)) (noocs_virtual noocs_occ noocs_vir) @
     take (n_fix (num_act_occ opts)) (noocs_occupied noocs_occ noocs_vir) @
     take (n_fix (num_act_vir opts)) (noocs_virtual noocs_occ noocs_vir)"

definition fraction :: "(rat \<Rightarrow> rat) \<Rightarrow> rat option \<Rightarrow> nat option \<Rightarrow> pynum \<Rightarrow> orb list \<Rightarrow> quotient option" where
  "fraction c t k den noocs =
     (if t = None \<and> k = None then None
      else Some (fdiv (contribs c (take (n_thr c t den noocs) noocs) + contribs c (take (n_fix k) noocs))
                  (pval den)))"

definition block_counts :: "nat \<Rightarrow> orb list \<Rightarrow> nat list" where
  "block_counts n xs = map (\<lambda>h. length (filter (\<lambda>x. irrep_of x = h) xs)) [0..<n]"

definition exceeds :: "(rat \<Rightarrow> rat) \<Rightarrow> pynum \<Rightarrow> rat \<Rightarrow> orb list \<Rightarrow> bool" where
  "exceeds c den thr xs = qgt (fdiv (contribs c xs) (pval den)) thr"

definition stops_at :: "(rat \<Rightarrow> rat) \<Rightarrow> pynum \<Rightarrow> rat \<Rightarrow> orb list \<Rightarrow> nat \<Rightarrow> bool" where
  "stops_at c den thr noocs n =
     (n \<le> length noocs \<and>
      (\<forall>m\<in>{1..n}. \<not> exceeds c den thr (take m noocs)) \<and>
      (n < length noocs \<longrightarrow> exceeds c den thr (take (Suc n) noocs)))"


text \<open>
  \<open>commits_on_equality\<close> says that \<open>n\<close> counts every orbital at which the tentative
  fraction equals the threshold exactly while no earlier orbital crossed it;
  \<open>stops_strictly\<close> that the orbital the loop stops at, if there is one, has a fraction
  that exceeds the threshold and is therefore not equal to it.
\<close>

definition commits_on_equality :: "(rat \<Rightarrow> rat) \<Rightarrow> pynum \<Rightarrow> rat \<Rightarrow> orb list \<Rightarrow> nat \<Rightarrow> bool" where
  "commits_on_equality c den thr noocs n =
     (\<forall>j\<in>{0..<length noocs}.
        (\<forall>m\<in>{1..j}. \<not> exceeds c den thr (take m noocs)) \<and>
        fdiv (contribs c (take (Suc j) noocs)) (pval den) = Finite thr \<longrightarrow> j < n)"

definition stops_strictly :: "(rat \<Rightarrow> rat) \<Rightarrow> pynum \<Rightarrow> rat \<Rightarrow> orb list \<Rightarrow> nat \<Rightarrow> bool" where
  "stops_strictly c den thr noocs n =
     (n < length noocs \<longrightarrow>
        exceeds c den thr (take (Suc n) noocs) \<and>
        fdiv (contribs c (take (Suc n) noocs)) (pval den) \<noteq> Finite thr)"

text \<open>
  \<open>same_blocks\<close> relates two vectors that differ only by the order of the occupations
  within each block; \<open>retag\<close> forgets the index of an orbital within its block, which
  the selector only prints.
\<close>

definition same_blocks :: "vector \<Rightarrow> vector \<Rightarrow> bool" where
  "same_blocks v w = list_all2 (\<lambda>a b. mset a = mset b) v w"

definition retag :: "orb \<Rightarrow> orb" where
  "retag x = (irrep_of x, occus_of x, 0)"

section \<open>Example inputs\<close>

text \<open>
  Concrete spectra and option sets on which the selector is run below. Two irreps
  throughout, except for \<open>ex_full_occ\<close> and \<open>ex_zero_vir\<close>, which have one.
\<close>

definition ex_occ :: vector where
  "ex_occ = [[1/2, 9/10], [3/4]]"

definition ex_vir :: vector where
  "ex_vir = [[1/10, 1/20], [3/20]]"

definition ex_thresholds :: options where
  "ex_thresholds = \<lparr>threshold_occ = Some (98/100), threshold_vir = Some (1/2),
     num_act_occ = None, num_act_vir = None\<rparr>"



definition ex_fixed :: options where
  "ex_fixed = \<lparr>threshold_occ = None, threshold_vir = None,
     num_act_occ = Some 2, num_act_vir = Some 1\<rparr>"

definition ex_no_vir :: vector where
  "ex_no_vir = [[], []]"

definition ex_fixed_none_vir :: options where
  "ex_fixed_none_vir = \<lparr>threshold_occ = None, threshold_vir = None,
     num_act_occ = Some 1, num_act_vir = Some 0\<rparr>"


definition ex_threshold_occ_only :: options where
  "ex_threshold_occ_only = \<lparr>threshold_occ = Some (98/100), threshold_vir = None,
     num_act_occ = None, num_act_vir = None\<rparr>"

definition ex_overrun :: options where
  "ex_overrun = \<lparr>threshold_occ = None, threshold_vir = None,
     num_act_occ = Some 2, num_act_vir = Some 4\<rparr>"

definition ex_overrun_after_threshold :: options where
  "ex_overrun_after_threshold = \<lparr>threshold_occ = None, threshold_vir = Some (98/100),
     num_act_occ = Some 4, num_act_vir = None\<rparr>"

definition ex_full_occ :: vector where
  "ex_full_occ = [[1, 1]]"

definition ex_zero_vir :: vector where
  "ex_zero_vir = [[0]]"

definition ex_half_vir :: vector where
  "ex_half_vir = [[1/2]]"

definition ex_threshold_vir_only :: options where
  "ex_threshold_vir_only = \<lparr>threshold_occ = None, threshold_vir = Some (98/100),
     num_act_occ = None, num_act_vir = None\<rparr>"

definition ex_thresholds_raised :: options where
  "ex_thresholds_raised = \<lparr>threshold_occ = Some 1, threshold_vir = Some (9/10),
     num_act_occ = None, num_act_vir = None\<rparr>"

definition ex_tied_occ :: vector where
  "ex_tied_occ = [[1/2, 9/10, 1/2], [1/2]]"

definition ex_tied_occ_permuted :: vector where
  "ex_tied_occ_permuted = [[9/10, 1/2, 1/2], [1/2]]"

definition ex_vir_permuted :: vector where
  "ex_vir_permuted = [[1/20, 1/10], [3/20]]"

section \<open>Arithmetic and the loops in closed form\<close>

lemma padd_NpFloat [simp]: "padd a (NpFloat y) = NpFloat (pval a + y)"
  by (cases a) simp_all

lemma psub_NpFloat [simp]: "psub a (NpFloat y) = NpFloat (pval a - y)"
  by (cases a) simp_all

lemma pval_padd [simp]: "pval (padd a b) = pval a + pval b"
  by (cases a; cases b) simp_all

lemma pval_psub [simp]: "pval (psub a b) = pval a - pval b"
  by (cases a; cases b) simp_all

lemma truediv_NpFloat [simp]: "truediv (NpFloat x) b = Inr (fdiv x (pval b))"
  by simp

lemma contribs_Nil [simp]: "contribs c [] = 0"
  by (simp add: contribs_def)

lemma contribs_Cons [simp]: "contribs c (x # xs) = c (occus_of x) + contribs c xs"
  by (simp add: contribs_def)

lemma contribs_append [simp]: "contribs c (xs @ ys) = contribs c xs + contribs c ys"
  by (simp add: contribs_def)

lemma length_add_counts [simp]: "length (add_counts act xs) = length act"
  by (simp add: add_counts_def)

lemma add_counts_Nil [simp]: "add_counts act [] = act"
  by (simp add: add_counts_def map_nth)

lemma add_counts_step:
  "irrep < length act \<Longrightarrow>
   add_counts (act[irrep := Suc (act ! irrep)]) xs = add_counts act ((irrep, occus, i) # xs)"
  by (rule nth_equalityI) (auto simp: add_counts_def irrep_of_def nth_list_update)

lemma add_counts_single:
  "irrep < length act \<Longrightarrow> add_counts act [(irrep, occus, i)] = act[irrep := Suc (act ! irrep)]"
  using add_counts_step [of irrep act "[]" occus i] by simp

lemma add_counts_append: "add_counts (add_counts act xs) ys = add_counts act (xs @ ys)"
  by (rule nth_equalityI) (auto simp: add_counts_def)

lemma thr_count_le: "thr_count c thr d x xs \<le> length xs"
  by (induction xs arbitrary: x) auto

lemma threshold_loop_closed:
  "\<forall>y\<in>set xs. irrep_of y < length act \<Longrightarrow>
   threshold_loop c thr den xs (numerator, act, n) =
     Inr (if xs = [] then numerator
          else NpFloat (pval numerator + contribs c (take (thr_count c thr (pval den) (pval numerator) xs) xs)),
          add_counts act (take (thr_count c thr (pval den) (pval numerator) xs) xs),
          n + thr_count c thr (pval den) (pval numerator) xs)"
proof (induction xs arbitrary: numerator act n)
  case Nil
  show ?case by simp
next
  case (Cons y ys)
  obtain irrep occus i where y: "y = (irrep, occus, i)"
    by (cases y) auto
  have irr: "irrep < length act"
    using Cons.prems by (simp add: y irrep_of_def)
  have rest: "\<forall>z\<in>set ys. irrep_of z < length (act[irrep := act ! irrep + 1])"
    using Cons.prems by simp
  show ?case
  proof (cases "qgt (fdiv (pval numerator + c occus) (pval den)) thr")
    case True
    then show ?thesis
      by (simp add: y occus_of_def)
  next
    case False
    have step: "threshold_loop c thr den (y # ys) (numerator, act, n) =
        threshold_loop c thr den ys
          (NpFloat (pval numerator + c occus), act[irrep := act ! irrep + 1], n + 1)"
      using False irr by (simp add: y)
    show ?thesis
      unfolding step Cons.IH [OF rest]
      using False irr
      by (cases ys) (simp_all add: y occus_of_def add_counts_step add_counts_single add.assoc)
  qed
qed

lemma fixed_loop_closed:
  "\<forall>y\<in>set noocs. irrep_of y < length act \<Longrightarrow> k \<le> length noocs \<Longrightarrow>
   fixed_loop c noocs [j..<k] (numerator, act) =
     Inr (if k \<le> j then numerator
          else NpFloat (pval numerator + contribs c (take (k - j) (drop j noocs))),
          add_counts act (take (k - j) (drop j noocs)))"
proof (induction "k - j" arbitrary: j numerator act)
  case 0
  then show ?case by simp
next
  case (Suc m)
  have jk: "j < k" and m: "m = k - Suc j"
    using Suc.hyps(2) by auto
  have jl: "j < length noocs"
    using jk Suc.prems(2) by simp
  obtain irrep occus i where y: "noocs ! j = (irrep, occus, i)"
    by (cases "noocs ! j") auto
  have irr: "irrep < length act"
    using Suc.prems(1) jl y by (metis fst_conv irrep_of_def nth_mem)
  have rest: "\<forall>z\<in>set noocs. irrep_of z < length (act[irrep := act ! irrep + 1])"
    using Suc.prems(1) by simp
  have split: "take (k - j) (drop j noocs) = (irrep, occus, i) # take (k - Suc j) (drop (Suc j) noocs)"
    using jk jl y by (metis Cons_nth_drop_Suc Suc_diff_Suc take_Suc_Cons)
  have step: "fixed_loop c noocs [j..<k] (numerator, act) =
      fixed_loop c noocs [Suc j..<k]
        (NpFloat (pval numerator + c occus), act[irrep := act ! irrep + 1])"
    using jk jl irr by (simp add: upt_conv_Cons y)
  show ?case
    unfolding step Suc.hyps(1) [OF m rest Suc.prems(2)] split
    using irr jk by (simp add: occus_of_def add_counts_step add.assoc)
qed

lemma fixed_loop_overrun:
  "\<forall>y\<in>set noocs. irrep_of y < length act \<Longrightarrow> j \<le> length noocs \<Longrightarrow> length noocs < k \<Longrightarrow>
   fixed_loop c noocs [j..<k] (numerator, act) = Inl IndexError"
proof (induction "length noocs - j" arbitrary: j numerator act)
  case 0
  then have "j = length noocs" by simp
  then show ?case
    using "0.prems"(3) by (simp add: upt_conv_Cons)
next
  case (Suc m)
  have jl: "j < length noocs" and m: "m = length noocs - Suc j"
    using Suc.hyps(2) by auto
  have jk: "j < k"
    using jl Suc.prems(3) by simp
  obtain irrep occus i where y: "noocs ! j = (irrep, occus, i)"
    by (cases "noocs ! j") auto
  have irr: "irrep < length act"
    using Suc.prems(1) jl y by (metis fst_conv irrep_of_def nth_mem)
  have rest: "\<forall>z\<in>set noocs. irrep_of z < length (act[irrep := act ! irrep + 1])"
    using Suc.prems(1) by simp
  have step: "fixed_loop c noocs [j..<k] (numerator, act) =
      fixed_loop c noocs [Suc j..<k]
        (NpFloat (pval numerator + c occus), act[irrep := act ! irrep + 1])"
    using jk jl irr by (simp add: upt_conv_Cons y)
  show ?case
    unfolding step using Suc.hyps(1) [OF m rest _ Suc.prems(3)] jl by simp
qed

section \<open>The tagged spectra and the denominators\<close>

lemma py_sum_eq: "py_sum arr = (if arr = [] then PyInt 0 else NpFloat (sum_list arr))"
proof -
  have "foldl padd (NpFloat x) (map NpFloat ys) = NpFloat (x + sum_list ys)" for x ys
    by (induction ys arbitrary: x) (simp_all add: add.assoc)
  then show ?thesis
    by (cases arr) (simp_all add: py_sum_def)
qed

lemma padd_PyInt_0 [simp]: "padd d (PyInt 0) = d"
  by (cases d) simp_all

lemma map_occus_tag_block_aux:
  "map (occus_of \<circ> (\<lambda>(i, occus). (s, occus, i))) (enumerate n arr) = arr"
  by (induction arr arbitrary: n) (simp_all add: occus_of_def)

lemma map_irrep_tag_block_aux:
  "map (irrep_of \<circ> (\<lambda>(i, occus). (s, occus, i))) (enumerate n arr) = replicate (length arr) s"
  by (induction arr arbitrary: n) (simp_all add: irrep_of_def)

lemma map_occus_tag_block [simp]: "map occus_of (tag_block s arr) = arr"
  by (simp add: tag_block_def map_occus_tag_block_aux)

lemma map_irrep_tag_block [simp]: "map irrep_of (tag_block s arr) = replicate (length arr) s"
  by (simp add: tag_block_def map_irrep_tag_block_aux)

lemma length_tag_block [simp]: "length (tag_block s arr) = length arr"
  by (simp add: tag_block_def)

lemma tag_block_Nil_iff [simp]: "tag_block s arr = [] \<longleftrightarrow> arr = []"
  using length_tag_block [of s arr] by (metis length_0_conv)

lemma irrep_tag_block: "x \<in> set (tag_block s arr) \<Longrightarrow> irrep_of x = s"
proof -
  assume "x \<in> set (tag_block s arr)"
  then have "irrep_of x \<in> set (map irrep_of (tag_block s arr))"
    by (simp del: map_irrep_tag_block)
  then show ?thesis by simp
qed

lemma contribs_map: "contribs c xs = sum_list (map c (map occus_of xs))"
  by (simp add: contribs_def comp_def)

lemma contribs_tag_block_occ:
  "contribs occ_contribution (tag_block s arr) = of_nat (length arr) - sum_list arr"
  unfolding contribs_map map_occus_tag_block
  by (induction arr) (simp_all add: occ_contribution_def)

lemma contribs_tag_block_vir:
  "contribs vir_contribution (tag_block s arr) = sum_list arr"
  unfolding contribs_map map_occus_tag_block
  by (induction arr) (simp_all add: vir_contribution_def)

lemma den_ok_occ_step:
  "den_ok occ_contribution od a \<Longrightarrow>
   den_ok occ_contribution (padd od (psub (PyInt (int (length arr))) (py_sum arr))) (a @ tag_block s arr)"
  by (cases "arr = []"; cases "a = []")
     (simp_all add: den_ok_def py_sum_eq contribs_tag_block_occ)

lemma den_ok_vir_step:
  "den_ok vir_contribution vd b \<Longrightarrow>
   den_ok vir_contribution (padd vd (py_sum arr)) (b @ tag_block s arr)"
  by (cases "arr = []"; cases "b = []")
     (simp_all add: den_ok_def py_sum_eq contribs_tag_block_vir)

lemma collect_closed:
  "\<exists>od' vd'. collect zs s (a, b, od, vd) =
      (a @ tags s (map fst zs), b @ tags s (map snd zs), od', vd') \<and>
      (den_ok occ_contribution od a \<longrightarrow> den_ok occ_contribution od' (a @ tags s (map fst zs))) \<and>
      (den_ok vir_contribution vd b \<longrightarrow> den_ok vir_contribution vd' (b @ tags s (map snd zs)))"
proof (induction zs arbitrary: s a b od vd)
  case Nil
  show ?case by simp
next
  case (Cons z zs)
  obtain o_h v_h where z: "z = (o_h, v_h)" by (cases z) auto
  show ?case
    using Cons.IH [of "Suc s" "a @ tag_block s o_h" "b @ tag_block s v_h"
        "padd od (psub (PyInt (int (length o_h))) (py_sum o_h))" "padd vd (py_sum v_h)"]
    by (auto simp: z den_ok_occ_step den_ok_vir_step)
qed

lemma spectra_closed:
  "\<exists>od vd. spectra noocs_occ noocs_vir =
      (tags 0 (occ_blocks noocs_occ noocs_vir), tags 0 (vir_blocks noocs_occ noocs_vir), od, vd) \<and>
      den_ok occ_contribution od (tags 0 (occ_blocks noocs_occ noocs_vir)) \<and>
      den_ok vir_contribution vd (tags 0 (vir_blocks noocs_occ noocs_vir))"
proof (cases "length noocs_occ = 1")
  case True
  have "den_ok occ_contribution (PyInt 0) []" "den_ok vir_contribution (PyInt 0) []"
    by (simp_all add: den_ok_def)
  from den_ok_occ_step [OF this(1), of "hd noocs_occ" 0] den_ok_vir_step [OF this(2), of "hd noocs_vir" 0]
  show ?thesis
    using True by (simp add: spectra_def occ_blocks_def vir_blocks_def)
next
  case False
  have "den_ok occ_contribution (PyInt 0) []" "den_ok vir_contribution (PyInt 0) []"
    by (simp_all add: den_ok_def)
  with collect_closed [of "zip noocs_occ noocs_vir" 0 "[]" "[]" "PyInt 0" "PyInt 0"]
  show ?thesis
    using False by (auto simp: spectra_def occ_blocks_def vir_blocks_def)
qed

lemma irrep_tags: "x \<in> set (tags s bs) \<Longrightarrow> s \<le> irrep_of x \<and> irrep_of x < s + length bs"
proof (induction bs arbitrary: s)
  case Nil
  then show ?case by simp
next
  case (Cons b bs)
  then show ?case
    using irrep_tag_block [of x s b] by fastforce
qed

lemma length_occ_blocks: "length (occ_blocks noocs_occ noocs_vir) \<le> length noocs_occ"
  by (simp add: occ_blocks_def)

lemma length_vir_blocks: "length (vir_blocks noocs_occ noocs_vir) \<le> length noocs_occ"
  by (simp add: vir_blocks_def)

lemma set_noocs_occupied: "set (noocs_occupied noocs_occ noocs_vir) = set (tags 0 (occ_blocks noocs_occ noocs_vir))"
  using spectra_closed [of noocs_occ noocs_vir] by (auto simp: noocs_occupied_def)

lemma set_noocs_virtual: "set (noocs_virtual noocs_occ noocs_vir) = set (tags 0 (vir_blocks noocs_occ noocs_vir))"
  using spectra_closed [of noocs_occ noocs_vir] by (auto simp: noocs_virtual_def)

lemma irrep_noocs_occupied:
  "\<forall>x\<in>set (noocs_occupied noocs_occ noocs_vir). irrep_of x < length noocs_occ"
  using irrep_tags [of _ 0 "occ_blocks noocs_occ noocs_vir"] length_occ_blocks [of noocs_occ noocs_vir]
  by (fastforce simp: set_noocs_occupied)

lemma irrep_noocs_virtual:
  "\<forall>x\<in>set (noocs_virtual noocs_occ noocs_vir). irrep_of x < length noocs_occ"
  using irrep_tags [of _ 0 "vir_blocks noocs_occ noocs_vir"] length_vir_blocks [of noocs_occ noocs_vir]
  by (fastforce simp: set_noocs_virtual)

lemma contribs_mset: "mset xs = mset ys \<Longrightarrow> contribs c xs = contribs c ys"
proof -
  assume "mset xs = mset ys"
  then have "sum_mset (image_mset (\<lambda>x. c (occus_of x)) (mset xs)) = sum_mset (image_mset (\<lambda>x. c (occus_of x)) (mset ys))"
    by simp
  then show ?thesis
    unfolding contribs_def by (metis mset_map sum_mset_sum_list)
qed

lemma den_ok_mset: "mset xs = mset ys \<Longrightarrow> den_ok c d xs \<Longrightarrow> den_ok c d ys"
proof -
  assume m: "mset xs = mset ys" and d: "den_ok c d xs"
  have "xs = [] \<longleftrightarrow> ys = []"
    using m by (metis mset_zero_iff)
  then show ?thesis
    using d contribs_mset [OF m, of c] by (simp add: den_ok_def)
qed

lemma occ_den_ok: "den_ok occ_contribution (occ_den noocs_occ noocs_vir) (noocs_occupied noocs_occ noocs_vir)"
proof -
  obtain od vd where s: "spectra noocs_occ noocs_vir =
      (tags 0 (occ_blocks noocs_occ noocs_vir), tags 0 (vir_blocks noocs_occ noocs_vir), od, vd)"
    and d: "den_ok occ_contribution od (tags 0 (occ_blocks noocs_occ noocs_vir))"
    using spectra_closed [of noocs_occ noocs_vir] by blast
  have "den_ok occ_contribution (occ_den noocs_occ noocs_vir) (tags 0 (occ_blocks noocs_occ noocs_vir))"
    using d by (simp add: occ_den_def s)
  then show ?thesis
    by (rule den_ok_mset [rotated]) (simp add: noocs_occupied_def s)
qed

lemma vir_den_ok: "den_ok vir_contribution (vir_den noocs_occ noocs_vir) (noocs_virtual noocs_occ noocs_vir)"
proof -
  obtain od vd where s: "spectra noocs_occ noocs_vir =
      (tags 0 (occ_blocks noocs_occ noocs_vir), tags 0 (vir_blocks noocs_occ noocs_vir), od, vd)"
    and d: "den_ok vir_contribution vd (tags 0 (vir_blocks noocs_occ noocs_vir))"
    using spectra_closed [of noocs_occ noocs_vir] by blast
  have "den_ok vir_contribution (vir_den noocs_occ noocs_vir) (tags 0 (vir_blocks noocs_occ noocs_vir))"
    using d by (simp add: vir_den_def s)
  then show ?thesis
    by (rule den_ok_mset [rotated]) (simp add: noocs_virtual_def s)
qed

section \<open>The four selection blocks\<close>

lemma truediv_by_float: "is_float d \<Longrightarrow> truediv x d = Inr (fdiv (pval x) (pval d))"
  by (cases x; cases d) (simp_all add: is_float_def)

lemma den_ok_nonempty: "den_ok c d xs \<Longrightarrow> xs \<noteq> [] \<Longrightarrow> is_float d"
  by (simp add: den_ok_def is_float_def)

lemma den_ok_empty: "den_ok c d [] \<Longrightarrow> d = PyInt 0"
  by (simp add: den_ok_def)

lemma den_ok_pval: "den_ok c d xs \<Longrightarrow> pval d = contribs c xs"
  by (cases "xs = []") (simp_all add: den_ok_def)

lemma select_threshold_occ_None:
  "threshold_occ opts = None \<Longrightarrow> select_threshold_occ opts noocs den fr = Inr fr"
  by (simp add: select_threshold_occ_def)

lemma select_threshold_vir_None:
  "threshold_vir opts = None \<Longrightarrow> select_threshold_vir opts noocs den fr = Inr fr"
  by (simp add: select_threshold_vir_def)

lemma select_fixed_occ_None:
  "num_act_occ opts = None \<Longrightarrow> select_fixed_occ opts noocs den fr = Inr fr"
  by (simp add: select_fixed_occ_def)

lemma select_fixed_vir_None:
  "num_act_vir opts = None \<Longrightarrow> select_fixed_vir opts noocs den fr = Inr fr"
  by (simp add: select_fixed_vir_def)

lemma select_threshold_occ_Some:
  "threshold_occ opts = Some thr \<Longrightarrow> \<forall>y\<in>set noocs. irrep_of y < length (f_active fr) \<Longrightarrow>
   noocs \<noteq> [] \<Longrightarrow> is_float den \<Longrightarrow>
   select_threshold_occ opts noocs den fr =
     Inr (fr\<lparr>f_active := add_counts (f_active fr)
                (take (thr_count occ_contribution thr (pval den) (pval (f_occ_numerator fr)) noocs) noocs),
             f_occ_numerator := NpFloat (pval (f_occ_numerator fr) + contribs occ_contribution
                (take (thr_count occ_contribution thr (pval den) (pval (f_occ_numerator fr)) noocs) noocs)),
             f_sigma_o := Some (fdiv (pval (f_occ_numerator fr) + contribs occ_contribution
                (take (thr_count occ_contribution thr (pval den) (pval (f_occ_numerator fr)) noocs) noocs)) (pval den)),
             f_nact_occ := Some (thr_count occ_contribution thr (pval den) (pval (f_occ_numerator fr)) noocs)\<rparr>)"
  by (simp add: select_threshold_occ_def threshold_loop_closed truediv_by_float)

lemma select_threshold_vir_Some:
  "threshold_vir opts = Some thr \<Longrightarrow> \<forall>y\<in>set noocs. irrep_of y < length (f_active fr) \<Longrightarrow>
   noocs \<noteq> [] \<Longrightarrow> is_float den \<Longrightarrow>
   select_threshold_vir opts noocs den fr =
     Inr (fr\<lparr>f_active := add_counts (f_active fr)
                (take (thr_count vir_contribution thr (pval den) (pval (f_vir_numerator fr)) noocs) noocs),
             f_vir_numerator := NpFloat (pval (f_vir_numerator fr) + contribs vir_contribution
                (take (thr_count vir_contribution thr (pval den) (pval (f_vir_numerator fr)) noocs) noocs)),
             f_sigma_v := Some (fdiv (pval (f_vir_numerator fr) + contribs vir_contribution
                (take (thr_count vir_contribution thr (pval den) (pval (f_vir_numerator fr)) noocs) noocs)) (pval den)),
             f_nact_vir := Some (thr_count vir_contribution thr (pval den) (pval (f_vir_numerator fr)) noocs)\<rparr>)"
  by (simp add: select_threshold_vir_def threshold_loop_closed truediv_by_float)

lemma select_fixed_occ_Some:
  "num_act_occ opts = Some k \<Longrightarrow> \<forall>y\<in>set noocs. irrep_of y < length (f_active fr) \<Longrightarrow>
   k \<le> length noocs \<Longrightarrow> is_float den \<Longrightarrow>
   select_fixed_occ opts noocs den fr =
     Inr (fr\<lparr>f_active := add_counts (f_active fr) (take k noocs),
             f_occ_numerator := (if k = 0 then f_occ_numerator fr
                else NpFloat (pval (f_occ_numerator fr) + contribs occ_contribution (take k noocs))),
             f_sigma_o := Some (fdiv (pval (f_occ_numerator fr) + contribs occ_contribution (take k noocs)) (pval den))\<rparr>)"
  using fixed_loop_closed [of noocs "f_active fr" k occ_contribution 0 "f_occ_numerator fr"]
  by (simp add: select_fixed_occ_def truediv_by_float)

lemma select_fixed_vir_Some:
  "num_act_vir opts = Some k \<Longrightarrow> \<forall>y\<in>set noocs. irrep_of y < length (f_active fr) \<Longrightarrow>
   k \<le> length noocs \<Longrightarrow> is_float den \<Longrightarrow>
   select_fixed_vir opts noocs den fr =
     Inr (fr\<lparr>f_active := add_counts (f_active fr) (take k noocs),
             f_vir_numerator := (if k = 0 then f_vir_numerator fr
                else NpFloat (pval (f_vir_numerator fr) + contribs vir_contribution (take k noocs))),
             f_sigma_v := Some (fdiv (pval (f_vir_numerator fr) + contribs vir_contribution (take k noocs)) (pval den))\<rparr>)"
  using fixed_loop_closed [of noocs "f_active fr" k vir_contribution 0 "f_vir_numerator fr"]
  by (simp add: select_fixed_vir_def truediv_by_float)

section \<open>The selector in closed form\<close>

lemma find_active_space_returns:
  assumes occ_ne: "threshold_occ opts \<noteq> None \<or> num_act_occ opts \<noteq> None \<Longrightarrow>
            noocs_occupied noocs_occ noocs_vir \<noteq> []"
    and vir_ne: "threshold_vir opts \<noteq> None \<or> num_act_vir opts \<noteq> None \<Longrightarrow>
            noocs_virtual noocs_occ noocs_vir \<noteq> []"
    and ko: "n_fix (num_act_occ opts) \<le> length (noocs_occupied noocs_occ noocs_vir)"
    and kv: "n_fix (num_act_vir opts) \<le> length (noocs_virtual noocs_occ noocs_vir)"
  shows "find_active_space noocs_occ noocs_vir opts =
     Inr \<lparr>active = add_counts (replicate (length noocs_occ) 0) (committed noocs_occ noocs_vir opts),
          nact = sum_list (add_counts (replicate (length noocs_occ) 0) (committed noocs_occ noocs_vir opts)),
          nact_occ = map_option (\<lambda>thr. n_thr occ_contribution (Some thr) (occ_den noocs_occ noocs_vir)
                        (noocs_occupied noocs_occ noocs_vir)) (threshold_occ opts),
          nact_vir = map_option (\<lambda>thr. n_thr vir_contribution (Some thr) (vir_den noocs_occ noocs_vir)
                        (noocs_virtual noocs_occ noocs_vir)) (threshold_vir opts),
          sigma_o = fraction occ_contribution (threshold_occ opts) (num_act_occ opts)
                      (occ_den noocs_occ noocs_vir) (noocs_occupied noocs_occ noocs_vir),
          sigma_v = fraction vir_contribution (threshold_vir opts) (num_act_vir opts)
                      (vir_den noocs_occ noocs_vir) (noocs_virtual noocs_occ noocs_vir),
          occ_denominator = occ_den noocs_occ noocs_vir,
          vir_denominator = vir_den noocs_occ noocs_vir\<rparr>"
proof -
  define occs where "occs = noocs_occupied noocs_occ noocs_vir"
  define virs where "virs = noocs_virtual noocs_occ noocs_vir"
  define od where "od = occ_den noocs_occ noocs_vir"
  define vd where "vd = vir_den noocs_occ noocs_vir"
  have irrO: "\<forall>y\<in>set occs. irrep_of y < length noocs_occ"
    unfolding occs_def by (rule irrep_noocs_occupied)
  have irrV: "\<forall>y\<in>set virs. irrep_of y < length noocs_occ"
    unfolding virs_def by (rule irrep_noocs_virtual)
  have odF: "threshold_occ opts \<noteq> None \<or> num_act_occ opts \<noteq> None \<Longrightarrow> is_float od"
    using den_ok_nonempty [OF occ_den_ok [of noocs_occ noocs_vir]] occ_ne
    unfolding od_def by blast
  have vdF: "threshold_vir opts \<noteq> None \<or> num_act_vir opts \<noteq> None \<Longrightarrow> is_float vd"
    using den_ok_nonempty [OF vir_den_ok [of noocs_occ noocs_vir]] vir_ne
    unfolding vd_def by blast
  note steps = select_threshold_occ_None select_threshold_vir_None select_fixed_occ_None
    select_fixed_vir_None select_threshold_occ_Some select_threshold_vir_Some
    select_fixed_occ_Some select_fixed_vir_Some
  show ?thesis
    unfolding find_active_space_def committed_def
    unfolding occs_def [symmetric] virs_def [symmetric] od_def [symmetric] vd_def [symmetric]
    using irrO irrV odF vdF ko [folded occs_def] kv [folded virs_def]
      occ_ne [folded occs_def] vir_ne [folded virs_def]
    apply (cases "threshold_occ opts"; cases "threshold_vir opts"; cases "num_act_occ opts";
        cases "num_act_vir opts")
    apply (simp_all add: then_do_def steps initial_frame_def make_results_def n_thr_def n_fix_def
        fraction_def add_counts_append od_def vd_def)
    done
qed

section \<open>Where the threshold loop stops\<close>

lemma add_counts_replicate: "add_counts (replicate n 0) xs = block_counts n xs"
  by (simp add: add_counts_def block_counts_def)

lemma sum_list_bump: "i < length act \<Longrightarrow> sum_list (act[i := Suc (act ! i)]) = Suc (sum_list act)"
  by (simp add: sum_list_update)

lemma sum_list_add_counts:
  "\<forall>y\<in>set xs. irrep_of y < length act \<Longrightarrow> sum_list (add_counts act xs) = sum_list act + length xs"
proof (induction xs arbitrary: act)
  case Nil
  show ?case by simp
next
  case (Cons y ys)
  obtain irrep occus i where y: "y = (irrep, occus, i)" by (cases y) auto
  have irr: "irrep < length act" using Cons.prems by (simp add: y irrep_of_def)
  have "sum_list (add_counts (act[irrep := Suc (act ! irrep)]) ys) =
      sum_list (act[irrep := Suc (act ! irrep)]) + length ys"
    using Cons.prems by (intro Cons.IH) simp
  then show ?case
    using irr by (simp add: y add_counts_step [symmetric] sum_list_bump)
qed

lemma sum_list_block_counts:
  "\<forall>y\<in>set xs. irrep_of y < n \<Longrightarrow> sum_list (block_counts n xs) = length xs"
  using sum_list_add_counts [of xs "replicate n 0"] by (simp add: add_counts_replicate)

lemma thr_count_stops:
  "(\<forall>m\<in>{1..thr_count c thr d x xs}. \<not> qgt (fdiv (x + contribs c (take m xs)) d) thr) \<and>
   (thr_count c thr d x xs < length xs \<longrightarrow>
      qgt (fdiv (x + contribs c (take (Suc (thr_count c thr d x xs)) xs)) d) thr)"
proof (induction xs arbitrary: x)
  case Nil
  show ?case by simp
next
  case (Cons y ys)
  show ?case
  proof (cases "qgt (fdiv (x + c (occus_of y)) d) thr")
    case True
    then show ?thesis by simp
  next
    case False
    have "\<not> qgt (fdiv (x + contribs c (take m (y # ys))) d) thr"
      if "m \<in> {1..Suc (thr_count c thr d (x + c (occus_of y)) ys)}" for m
    proof (cases m)
      case 0
      with that show ?thesis by simp
    next
      case (Suc k)
      show ?thesis
      proof (cases k)
        case 0
        then show ?thesis using False Suc by simp
      next
        case (Suc j)
        then have "k \<in> {1..thr_count c thr d (x + c (occus_of y)) ys}"
          using that \<open>m = Suc k\<close> by simp
        then show ?thesis
          using Cons.IH [of "x + c (occus_of y)"] \<open>m = Suc k\<close> by (simp add: add.assoc)
      qed
    qed
    then show ?thesis
      using False Cons.IH [of "x + c (occus_of y)"] by (simp add: add.assoc)
  qed
qed

lemma thr_count_ge:
  "k \<le> length xs \<Longrightarrow> \<forall>m\<in>{1..k}. \<not> qgt (fdiv (x + contribs c (take m xs)) d) thr \<Longrightarrow>
   k \<le> thr_count c thr d x xs"
proof (induction xs arbitrary: x k)
  case Nil
  then show ?case by simp
next
  case (Cons y ys)
  show ?case
  proof (cases k)
    case 0
    then show ?thesis by simp
  next
    case (Suc j)
    have first: "\<not> qgt (fdiv (x + c (occus_of y)) d) thr"
      using Cons.prems(2) [rule_format, of 1] Suc by simp
    have "\<not> qgt (fdiv (x + c (occus_of y) + contribs c (take m ys)) d) thr" if "m \<in> {1..j}" for m
      using Cons.prems(2) [rule_format, of "Suc m"] that Suc by (simp add: add.assoc)
    then have "j \<le> thr_count c thr d (x + c (occus_of y)) ys"
      using Cons.prems(1) Suc by (intro Cons.IH) simp_all
    then show ?thesis
      using first Suc by simp
  qed
qed

lemma qgt_antimono: "t \<le> t' \<Longrightarrow> qgt q t' \<Longrightarrow> qgt q t"
  by (cases q) simp_all

lemma thr_count_mono: "t \<le> t' \<Longrightarrow> thr_count c t d x xs \<le> thr_count c t' d x xs"
  by (induction xs arbitrary: x) (auto dest: qgt_antimono)




lemma thr_count_stops_at: "stops_at c den thr noocs (thr_count c thr (pval den) 0 noocs)"
  using thr_count_stops [of c thr "pval den" 0 noocs] thr_count_le [of c thr "pval den" 0 noocs]
  by (simp add: stops_at_def exceeds_def)

lemma stops_at_unique:
  assumes "stops_at c den thr noocs n"
  shows "n = thr_count c thr (pval den) 0 noocs"
proof -
  let ?k = "thr_count c thr (pval den) 0 noocs"
  have "n \<le> ?k"
    using assms by (intro thr_count_ge) (simp_all add: stops_at_def exceeds_def)
  moreover have "\<not> n < ?k"
  proof
    assume lt: "n < ?k"
    then have "n < length noocs"
      using thr_count_le [of c thr "pval den" 0 noocs] by simp
    then have "exceeds c den thr (take (Suc n) noocs)"
      using assms by (simp add: stops_at_def)
    moreover have "Suc n \<in> {1..?k}" using lt by simp
    ultimately show False
      using thr_count_stops [of c thr "pval den" 0 noocs] by (simp add: exceeds_def)
  qed
  ultimately show ?thesis by simp
qed


section \<open>The selection blocks, whether they return or fail\<close>

lemma truediv_cases: "truediv a b = Inl ZeroDivisionError \<or> (\<exists>q. truediv a b = Inr q)"
  by (cases a; cases b) simp_all

lemma select_threshold_occ_cases:
  assumes "\<forall>y\<in>set noocs. irrep_of y < length (f_active fr)"
  shows "select_threshold_occ opts noocs den fr = Inl ZeroDivisionError \<or>
    (\<exists>act num q n. select_threshold_occ opts noocs den fr =
        Inr (fr\<lparr>f_active := act, f_occ_numerator := num, f_sigma_o := q, f_nact_occ := n\<rparr>) \<and>
      length act = length (f_active fr) \<and>
      (q = None \<longleftrightarrow> threshold_occ opts = None \<and> f_sigma_o fr = None) \<and>
      (threshold_occ opts \<noteq> None \<longrightarrow> n \<noteq> None))"
proof (cases "threshold_occ opts")
  case None
  have "fr = fr\<lparr>f_active := f_active fr, f_occ_numerator := f_occ_numerator fr,
      f_sigma_o := f_sigma_o fr, f_nact_occ := f_nact_occ fr\<rparr>"
    by simp
  then show ?thesis
    using None by (metis select_threshold_occ_None)
next
  case (Some thr)
  define k where "k = thr_count occ_contribution thr (pval den) (pval (f_occ_numerator fr)) noocs"
  define num where "num = (if noocs = [] then f_occ_numerator fr
     else NpFloat (pval (f_occ_numerator fr) + contribs occ_contribution (take k noocs)))"
  have loop: "threshold_loop occ_contribution thr den noocs (f_occ_numerator fr, f_active fr, 0) =
      Inr (num, add_counts (f_active fr) (take k noocs), k)"
    using threshold_loop_closed [OF assms, of occ_contribution thr den "f_occ_numerator fr" 0]
    by (simp add: k_def num_def)
  from truediv_cases [of num den] show ?thesis
  proof
    assume "truediv num den = Inl ZeroDivisionError"
    then show ?thesis
      by (simp add: select_threshold_occ_def Some loop)
  next
    assume "\<exists>q. truediv num den = Inr q"
    then obtain q where "truediv num den = Inr q" ..
    then have "select_threshold_occ opts noocs den fr =
        Inr (fr\<lparr>f_active := add_counts (f_active fr) (take k noocs), f_occ_numerator := num,
          f_sigma_o := Some q, f_nact_occ := Some k\<rparr>)"
      by (simp add: select_threshold_occ_def Some loop)
    then show ?thesis
      using Some by (intro disjI2 exI [of _ "add_counts (f_active fr) (take k noocs)"]
          exI [of _ num] exI [of _ "Some q"] exI [of _ "Some k"]) simp
  qed
qed

lemma select_threshold_vir_cases:
  assumes "\<forall>y\<in>set noocs. irrep_of y < length (f_active fr)"
  shows "select_threshold_vir opts noocs den fr = Inl ZeroDivisionError \<or>
    (\<exists>act num q n. select_threshold_vir opts noocs den fr =
        Inr (fr\<lparr>f_active := act, f_vir_numerator := num, f_sigma_v := q, f_nact_vir := n\<rparr>) \<and>
      length act = length (f_active fr) \<and>
      (q = None \<longleftrightarrow> threshold_vir opts = None \<and> f_sigma_v fr = None) \<and>
      (threshold_vir opts \<noteq> None \<longrightarrow> n \<noteq> None))"
proof (cases "threshold_vir opts")
  case None
  have "fr = fr\<lparr>f_active := f_active fr, f_vir_numerator := f_vir_numerator fr,
      f_sigma_v := f_sigma_v fr, f_nact_vir := f_nact_vir fr\<rparr>"
    by simp
  then show ?thesis
    using None by (metis select_threshold_vir_None)
next
  case (Some thr)
  define k where "k = thr_count vir_contribution thr (pval den) (pval (f_vir_numerator fr)) noocs"
  define num where "num = (if noocs = [] then f_vir_numerator fr
     else NpFloat (pval (f_vir_numerator fr) + contribs vir_contribution (take k noocs)))"
  have loop: "threshold_loop vir_contribution thr den noocs (f_vir_numerator fr, f_active fr, 0) =
      Inr (num, add_counts (f_active fr) (take k noocs), k)"
    using threshold_loop_closed [OF assms, of vir_contribution thr den "f_vir_numerator fr" 0]
    by (simp add: k_def num_def)
  from truediv_cases [of num den] show ?thesis
  proof
    assume "truediv num den = Inl ZeroDivisionError"
    then show ?thesis
      by (simp add: select_threshold_vir_def Some loop)
  next
    assume "\<exists>q. truediv num den = Inr q"
    then obtain q where "truediv num den = Inr q" ..
    then have "select_threshold_vir opts noocs den fr =
        Inr (fr\<lparr>f_active := add_counts (f_active fr) (take k noocs), f_vir_numerator := num,
          f_sigma_v := Some q, f_nact_vir := Some k\<rparr>)"
      by (simp add: select_threshold_vir_def Some loop)
    then show ?thesis
      using Some by (intro disjI2 exI [of _ "add_counts (f_active fr) (take k noocs)"]
          exI [of _ num] exI [of _ "Some q"] exI [of _ "Some k"]) simp
  qed
qed

lemma select_fixed_occ_overrun:
  "num_act_occ opts = Some k \<Longrightarrow> length noocs < k \<Longrightarrow>
   \<forall>y\<in>set noocs. irrep_of y < length (f_active fr) \<Longrightarrow>
   select_fixed_occ opts noocs den fr = Inl IndexError"
  using fixed_loop_overrun [of noocs "f_active fr" 0 k occ_contribution "f_occ_numerator fr"]
  by (simp add: select_fixed_occ_def)

lemma select_fixed_vir_overrun:
  "num_act_vir opts = Some k \<Longrightarrow> length noocs < k \<Longrightarrow>
   \<forall>y\<in>set noocs. irrep_of y < length (f_active fr) \<Longrightarrow>
   select_fixed_vir opts noocs den fr = Inl IndexError"
  using fixed_loop_overrun [of noocs "f_active fr" 0 k vir_contribution "f_vir_numerator fr"]
  by (simp add: select_fixed_vir_def)

lemma select_fixed_occ_cases:
  assumes "\<forall>y\<in>set noocs. irrep_of y < length (f_active fr)"
  shows "select_fixed_occ opts noocs den fr = Inl ZeroDivisionError \<or>
    select_fixed_occ opts noocs den fr = Inl IndexError \<or>
    (\<exists>act num q. select_fixed_occ opts noocs den fr =
        Inr (fr\<lparr>f_active := act, f_occ_numerator := num, f_sigma_o := q\<rparr>) \<and>
      length act = length (f_active fr) \<and>
      (q = None \<longleftrightarrow> num_act_occ opts = None \<and> f_sigma_o fr = None))"
proof (cases "num_act_occ opts")
  case None
  have "fr = fr\<lparr>f_active := f_active fr, f_occ_numerator := f_occ_numerator fr,
      f_sigma_o := f_sigma_o fr\<rparr>"
    by simp
  then show ?thesis
    using None by (metis select_fixed_occ_None)
next
  case (Some k)
  show ?thesis
  proof (cases "k \<le> length noocs")
    case False
    then show ?thesis
      using select_fixed_occ_overrun [OF Some _ assms] by simp
  next
    case True
    define num where "num = (if k = 0 then f_occ_numerator fr
       else NpFloat (pval (f_occ_numerator fr) + contribs occ_contribution (take k noocs)))"
    have loop: "fixed_loop occ_contribution noocs [0..<k] (f_occ_numerator fr, f_active fr) =
        Inr (num, add_counts (f_active fr) (take k noocs))"
      using fixed_loop_closed [OF assms True, of occ_contribution 0 "f_occ_numerator fr"]
      by (simp add: num_def)
    from truediv_cases [of num den] show ?thesis
    proof
      assume "truediv num den = Inl ZeroDivisionError"
      then show ?thesis
        by (simp add: select_fixed_occ_def Some loop)
    next
      assume "\<exists>q. truediv num den = Inr q"
      then obtain q where "truediv num den = Inr q" ..
      then have "select_fixed_occ opts noocs den fr =
          Inr (fr\<lparr>f_active := add_counts (f_active fr) (take k noocs), f_occ_numerator := num,
            f_sigma_o := Some q\<rparr>)"
        by (simp add: select_fixed_occ_def Some loop)
      then show ?thesis
        using Some by (intro disjI2 exI [of _ "add_counts (f_active fr) (take k noocs)"]
            exI [of _ num] exI [of _ "Some q"]) simp
    qed
  qed
qed

lemma select_fixed_vir_cases:
  assumes "\<forall>y\<in>set noocs. irrep_of y < length (f_active fr)"
  shows "select_fixed_vir opts noocs den fr = Inl ZeroDivisionError \<or>
    select_fixed_vir opts noocs den fr = Inl IndexError \<or>
    (\<exists>act num q. select_fixed_vir opts noocs den fr =
        Inr (fr\<lparr>f_active := act, f_vir_numerator := num, f_sigma_v := q\<rparr>) \<and>
      length act = length (f_active fr) \<and>
      (q = None \<longleftrightarrow> num_act_vir opts = None \<and> f_sigma_v fr = None))"
proof (cases "num_act_vir opts")
  case None
  have "fr = fr\<lparr>f_active := f_active fr, f_vir_numerator := f_vir_numerator fr,
      f_sigma_v := f_sigma_v fr\<rparr>"
    by simp
  then show ?thesis
    using None by (metis select_fixed_vir_None)
next
  case (Some k)
  show ?thesis
  proof (cases "k \<le> length noocs")
    case False
    then show ?thesis
      using select_fixed_vir_overrun [OF Some _ assms] by simp
  next
    case True
    define num where "num = (if k = 0 then f_vir_numerator fr
       else NpFloat (pval (f_vir_numerator fr) + contribs vir_contribution (take k noocs)))"
    have loop: "fixed_loop vir_contribution noocs [0..<k] (f_vir_numerator fr, f_active fr) =
        Inr (num, add_counts (f_active fr) (take k noocs))"
      using fixed_loop_closed [OF assms True, of vir_contribution 0 "f_vir_numerator fr"]
      by (simp add: num_def)
    from truediv_cases [of num den] show ?thesis
    proof
      assume "truediv num den = Inl ZeroDivisionError"
      then show ?thesis
        by (simp add: select_fixed_vir_def Some loop)
    next
      assume "\<exists>q. truediv num den = Inr q"
      then obtain q where "truediv num den = Inr q" ..
      then have "select_fixed_vir opts noocs den fr =
          Inr (fr\<lparr>f_active := add_counts (f_active fr) (take k noocs), f_vir_numerator := num,
            f_sigma_v := Some q\<rparr>)"
        by (simp add: select_fixed_vir_def Some loop)
      then show ?thesis
        using Some by (intro disjI2 exI [of _ "add_counts (f_active fr) (take k noocs)"]
            exI [of _ num] exI [of _ "Some q"]) simp
    qed
  qed
qed

lemma then_do_Inr: "then_do x f = Inr y \<Longrightarrow> \<exists>z. x = Inr z \<and> f z = Inr y"
  by (cases x) (simp_all add: then_do_def)

lemma find_active_space_Inr:
  assumes "find_active_space noocs_occ noocs_vir opts = Inr r"
  shows "\<exists>fr2 fr3 fr.
    select_fixed_occ opts (noocs_occupied noocs_occ noocs_vir) (occ_den noocs_occ noocs_vir) fr2 = Inr fr3 \<and>
    select_fixed_vir opts (noocs_virtual noocs_occ noocs_vir) (vir_den noocs_occ noocs_vir) fr3 = Inr fr \<and>
    length (f_active fr2) = length noocs_occ \<and> length (f_active fr3) = length noocs_occ \<and>
    r = make_results noocs_occ noocs_vir fr \<and>
    length (f_active fr) = length noocs_occ \<and>
    (f_sigma_o fr = None \<longleftrightarrow> threshold_occ opts = None \<and> num_act_occ opts = None) \<and>
    (f_sigma_v fr = None \<longleftrightarrow> threshold_vir opts = None \<and> num_act_vir opts = None) \<and>
    (threshold_occ opts \<noteq> None \<longrightarrow> f_nact_occ fr \<noteq> None) \<and>
    (threshold_vir opts \<noteq> None \<longrightarrow> f_nact_vir fr \<noteq> None)"
proof -
  define occs where "occs = noocs_occupied noocs_occ noocs_vir"
  define virs where "virs = noocs_virtual noocs_occ noocs_vir"
  define od where "od = occ_den noocs_occ noocs_vir"
  define vd where "vd = vir_den noocs_occ noocs_vir"
  define fr0 where "fr0 = initial_frame noocs_occ"
  have irrO: "\<forall>y\<in>set occs. irrep_of y < length noocs_occ"
    unfolding occs_def by (rule irrep_noocs_occupied)
  have irrV: "\<forall>y\<in>set virs. irrep_of y < length noocs_occ"
    unfolding virs_def by (rule irrep_noocs_virtual)
  have fr0: "length (f_active fr0) = length noocs_occ" "f_sigma_o fr0 = None"
    "f_sigma_v fr0 = None"
    by (simp_all add: fr0_def initial_frame_def)
  have run: "then_do (select_threshold_occ opts occs od fr0) (\<lambda>fr1.
      then_do (select_threshold_vir opts virs vd fr1) (\<lambda>fr2.
      then_do (select_fixed_occ opts occs od fr2) (\<lambda>fr3.
      then_do (select_fixed_vir opts virs vd fr3) (\<lambda>fr4.
      Inr (make_results noocs_occ noocs_vir fr4))))) = Inr r"
    using assms
    unfolding find_active_space_def occs_def virs_def od_def vd_def fr0_def .
  from then_do_Inr [OF run] obtain fr1 where
    s1: "select_threshold_occ opts occs od fr0 = Inr fr1" and
    run1: "then_do (select_threshold_vir opts virs vd fr1) (\<lambda>fr2.
      then_do (select_fixed_occ opts occs od fr2) (\<lambda>fr3.
      then_do (select_fixed_vir opts virs vd fr3) (\<lambda>fr4.
      Inr (make_results noocs_occ noocs_vir fr4)))) = Inr r"
    by blast
  from then_do_Inr [OF run1] obtain fr2 where
    s2: "select_threshold_vir opts virs vd fr1 = Inr fr2" and
    run2: "then_do (select_fixed_occ opts occs od fr2) (\<lambda>fr3.
      then_do (select_fixed_vir opts virs vd fr3) (\<lambda>fr4.
      Inr (make_results noocs_occ noocs_vir fr4))) = Inr r"
    by blast
  from then_do_Inr [OF run2] obtain fr3 where
    s3: "select_fixed_occ opts occs od fr2 = Inr fr3" and
    run3: "then_do (select_fixed_vir opts virs vd fr3) (\<lambda>fr4.
      Inr (make_results noocs_occ noocs_vir fr4)) = Inr r"
    by blast
  from then_do_Inr [OF run3] obtain fr4 where
    s4: "select_fixed_vir opts virs vd fr3 = Inr fr4" and
    r: "r = make_results noocs_occ noocs_vir fr4"
    by auto
  have p1: "length (f_active fr1) = length noocs_occ \<and>
      (f_sigma_o fr1 = None \<longleftrightarrow> threshold_occ opts = None) \<and> f_sigma_v fr1 = None \<and>
      (threshold_occ opts \<noteq> None \<longrightarrow> f_nact_occ fr1 \<noteq> None)"
    using select_threshold_occ_cases [of occs fr0 opts od] irrO fr0 s1 by auto
  have p2: "length (f_active fr2) = length noocs_occ \<and>
      (f_sigma_o fr2 = None \<longleftrightarrow> threshold_occ opts = None) \<and>
      (f_sigma_v fr2 = None \<longleftrightarrow> threshold_vir opts = None) \<and>
      (threshold_occ opts \<noteq> None \<longrightarrow> f_nact_occ fr2 \<noteq> None) \<and>
      (threshold_vir opts \<noteq> None \<longrightarrow> f_nact_vir fr2 \<noteq> None)"
    using select_threshold_vir_cases [of virs fr1 opts vd] irrV p1 s2 by auto
  have p3: "length (f_active fr3) = length noocs_occ \<and>
      (f_sigma_o fr3 = None \<longleftrightarrow> threshold_occ opts = None \<and> num_act_occ opts = None) \<and>
      (f_sigma_v fr3 = None \<longleftrightarrow> threshold_vir opts = None) \<and>
      (threshold_occ opts \<noteq> None \<longrightarrow> f_nact_occ fr3 \<noteq> None) \<and>
      (threshold_vir opts \<noteq> None \<longrightarrow> f_nact_vir fr3 \<noteq> None)"
    using select_fixed_occ_cases [of occs fr2 opts od] irrO p2 s3 by auto
  have p4: "length (f_active fr4) = length noocs_occ \<and>
      (f_sigma_o fr4 = None \<longleftrightarrow> threshold_occ opts = None \<and> num_act_occ opts = None) \<and>
      (f_sigma_v fr4 = None \<longleftrightarrow> threshold_vir opts = None \<and> num_act_vir opts = None) \<and>
      (threshold_occ opts \<noteq> None \<longrightarrow> f_nact_occ fr4 \<noteq> None) \<and>
      (threshold_vir opts \<noteq> None \<longrightarrow> f_nact_vir fr4 \<noteq> None)"
    using select_fixed_vir_cases [of virs fr3 opts vd] irrV p3 s4 by auto
  show ?thesis
    by (rule exI [of _ fr2], rule exI [of _ fr3], rule exI [of _ fr4])
      (use r p2 p3 p4 s3 s4 in \<open>simp add: occs_def virs_def od_def vd_def\<close>)
qed

lemma select_threshold_occ_returns:
  assumes "\<forall>y\<in>set noocs. irrep_of y < length (f_active fr)"
    and "threshold_occ opts \<noteq> None \<longrightarrow> noocs \<noteq> [] \<and> is_float den"
  shows "\<exists>fr'. select_threshold_occ opts noocs den fr = Inr fr' \<and>
    length (f_active fr') = length (f_active fr)"
proof (cases "threshold_occ opts")
  case None
  then show ?thesis by (simp add: select_threshold_occ_None)
next
  case (Some thr)
  then show ?thesis
    using assms by (simp add: select_threshold_occ_Some)
qed

lemma select_threshold_vir_returns:
  assumes "\<forall>y\<in>set noocs. irrep_of y < length (f_active fr)"
    and "threshold_vir opts \<noteq> None \<longrightarrow> noocs \<noteq> [] \<and> is_float den"
  shows "\<exists>fr'. select_threshold_vir opts noocs den fr = Inr fr' \<and>
    length (f_active fr') = length (f_active fr)"
proof (cases "threshold_vir opts")
  case None
  then show ?thesis by (simp add: select_threshold_vir_None)
next
  case (Some thr)
  then show ?thesis
    using assms by (simp add: select_threshold_vir_Some)
qed

lemma select_fixed_occ_returns:
  assumes "\<forall>y\<in>set noocs. irrep_of y < length (f_active fr)"
    and "\<forall>k. num_act_occ opts = Some k \<longrightarrow> k \<le> length noocs \<and> is_float den"
  shows "\<exists>fr'. select_fixed_occ opts noocs den fr = Inr fr' \<and>
    length (f_active fr') = length (f_active fr)"
proof (cases "num_act_occ opts")
  case None
  then show ?thesis by (simp add: select_fixed_occ_None)
next
  case (Some k)
  then show ?thesis
    using assms by (simp add: select_fixed_occ_Some)
qed

lemma then_do_Inl: "x = Inl e \<Longrightarrow> then_do x f = Inl e"
  by (simp add: then_do_def)

lemma then_do_step: "x = Inr z \<Longrightarrow> then_do x f = f z"
  by (simp add: then_do_def)

lemma fdiv_by_zero: "fdiv x 0 = NaN \<or> fdiv x 0 = PosInf \<or> fdiv x 0 = NegInf"
  by (simp add: fdiv_def)

lemma threshold_on_empty_manifold:
  assumes "(threshold_occ opts \<noteq> None \<and> noocs_occupied noocs_occ noocs_vir = []) \<or>
           (threshold_vir opts \<noteq> None \<and> noocs_virtual noocs_occ noocs_vir = [])"
  shows "find_active_space noocs_occ noocs_vir opts = Inl ZeroDivisionError"
proof -
  define occs where "occs = noocs_occupied noocs_occ noocs_vir"
  define virs where "virs = noocs_virtual noocs_occ noocs_vir"
  define od where "od = occ_den noocs_occ noocs_vir"
  define vd where "vd = vir_den noocs_occ noocs_vir"
  define fr0 where "fr0 = initial_frame noocs_occ"
  have irrO: "\<forall>y\<in>set occs. irrep_of y < length (f_active fr0)"
    using irrep_noocs_occupied [of noocs_occ noocs_vir]
    by (simp add: occs_def fr0_def initial_frame_def)
  have fr0: "f_occ_numerator fr0 = PyInt 0" "f_vir_numerator fr0 = PyInt 0"
    by (simp_all add: fr0_def initial_frame_def)
  have unfold: "find_active_space noocs_occ noocs_vir opts =
      then_do (select_threshold_occ opts occs od fr0) (\<lambda>fr1.
      then_do (select_threshold_vir opts virs vd fr1) (\<lambda>fr2.
      then_do (select_fixed_occ opts occs od fr2) (\<lambda>fr3.
      then_do (select_fixed_vir opts virs vd fr3) (\<lambda>fr4.
      Inr (make_results noocs_occ noocs_vir fr4)))))"
    unfolding find_active_space_def occs_def virs_def od_def vd_def fr0_def ..
  have occ_empty: "select_threshold_occ opts occs od fr0 = Inl ZeroDivisionError"
    if "threshold_occ opts \<noteq> None" "occs = []"
  proof -
    have "od = PyInt 0"
      using den_ok_empty occ_den_ok [of noocs_occ noocs_vir] that(2)
      by (simp add: od_def occs_def)
    then show ?thesis
      using that fr0 by (auto simp: select_threshold_occ_def)
  qed
  have vir_empty: "select_threshold_vir opts virs vd fr1 = Inl ZeroDivisionError"
    if "threshold_vir opts \<noteq> None" "virs = []" "f_vir_numerator fr1 = PyInt 0" for fr1
  proof -
    have "vd = PyInt 0"
      using den_ok_empty vir_den_ok [of noocs_occ noocs_vir] that(2)
      by (simp add: vd_def virs_def)
    then show ?thesis
      using that by (auto simp: select_threshold_vir_def)
  qed
  from select_threshold_occ_cases [OF irrO, of opts od] show ?thesis
  proof
    assume "select_threshold_occ opts occs od fr0 = Inl ZeroDivisionError"
    then show ?thesis
      unfolding unfold by (rule then_do_Inl)
  next
    assume "\<exists>act num q n. select_threshold_occ opts occs od fr0 =
        Inr (fr0\<lparr>f_active := act, f_occ_numerator := num, f_sigma_o := q, f_nact_occ := n\<rparr>) \<and>
      length act = length (f_active fr0) \<and>
      (q = None \<longleftrightarrow> threshold_occ opts = None \<and> f_sigma_o fr0 = None) \<and>
      (threshold_occ opts \<noteq> None \<longrightarrow> n \<noteq> None)"
    then obtain fr1 where s1: "select_threshold_occ opts occs od fr0 = Inr fr1"
      and n1: "f_vir_numerator fr1 = PyInt 0"
      using fr0 by auto
    have "\<not> (threshold_occ opts \<noteq> None \<and> occs = [])"
      using occ_empty s1 by auto
    then have "threshold_vir opts \<noteq> None" "virs = []"
      using assms by (auto simp: occs_def virs_def)
    then have "select_threshold_vir opts virs vd fr1 = Inl ZeroDivisionError"
      using n1 by (rule vir_empty)
    then show ?thesis
      unfolding unfold by (simp add: then_do_step [OF s1] then_do_Inl)
  qed
qed

section \<open>Threshold mode\<close>

lemma threshold_mode_returns:
  assumes "num_act_occ opts = None" and "num_act_vir opts = None"
    and "threshold_occ opts \<noteq> None \<Longrightarrow> noocs_occupied noocs_occ noocs_vir \<noteq> []"
    and "threshold_vir opts \<noteq> None \<Longrightarrow> noocs_virtual noocs_occ noocs_vir \<noteq> []"
  shows "find_active_space noocs_occ noocs_vir opts = Inr
     \<lparr>active = block_counts (length noocs_occ)
        (take (n_thr occ_contribution (threshold_occ opts) (occ_den noocs_occ noocs_vir)
           (noocs_occupied noocs_occ noocs_vir)) (noocs_occupied noocs_occ noocs_vir) @
         take (n_thr vir_contribution (threshold_vir opts) (vir_den noocs_occ noocs_vir)
           (noocs_virtual noocs_occ noocs_vir)) (noocs_virtual noocs_occ noocs_vir)),
      nact = n_thr occ_contribution (threshold_occ opts) (occ_den noocs_occ noocs_vir)
           (noocs_occupied noocs_occ noocs_vir) +
         n_thr vir_contribution (threshold_vir opts) (vir_den noocs_occ noocs_vir)
           (noocs_virtual noocs_occ noocs_vir),
      nact_occ = map_option (\<lambda>thr. thr_count occ_contribution thr (pval (occ_den noocs_occ noocs_vir)) 0
           (noocs_occupied noocs_occ noocs_vir)) (threshold_occ opts),
      nact_vir = map_option (\<lambda>thr. thr_count vir_contribution thr (pval (vir_den noocs_occ noocs_vir)) 0
           (noocs_virtual noocs_occ noocs_vir)) (threshold_vir opts),
      sigma_o = map_option (\<lambda>thr. fdiv (contribs occ_contribution
           (take (thr_count occ_contribution thr (pval (occ_den noocs_occ noocs_vir)) 0
              (noocs_occupied noocs_occ noocs_vir)) (noocs_occupied noocs_occ noocs_vir)))
           (pval (occ_den noocs_occ noocs_vir))) (threshold_occ opts),
      sigma_v = map_option (\<lambda>thr. fdiv (contribs vir_contribution
           (take (thr_count vir_contribution thr (pval (vir_den noocs_occ noocs_vir)) 0
              (noocs_virtual noocs_occ noocs_vir)) (noocs_virtual noocs_occ noocs_vir)))
           (pval (vir_den noocs_occ noocs_vir))) (threshold_vir opts),
      occ_denominator = occ_den noocs_occ noocs_vir,
      vir_denominator = vir_den noocs_occ noocs_vir\<rparr>"
proof -
  define occs where "occs = noocs_occupied noocs_occ noocs_vir"
  define virs where "virs = noocs_virtual noocs_occ noocs_vir"
  define od where "od = occ_den noocs_occ noocs_vir"
  define vd where "vd = vir_den noocs_occ noocs_vir"
  define n where "n = n_thr occ_contribution (threshold_occ opts) od occs"
  define m where "m = n_thr vir_contribution (threshold_vir opts) vd virs"
  have n: "n \<le> length occs" and m: "m \<le> length virs"
    by (simp_all add: n_def m_def n_thr_def thr_count_le split: option.split)
  have irr: "\<forall>y\<in>set (take n occs @ take m virs). irrep_of y < length noocs_occ"
    using irrep_noocs_occupied [of noocs_occ noocs_vir] irrep_noocs_virtual [of noocs_occ noocs_vir]
    by (auto simp: occs_def virs_def dest: in_set_takeD)
  have total: "sum_list (block_counts (length noocs_occ) (take n occs @ take m virs)) = n + m"
    using sum_list_block_counts [OF irr] n m by simp
  have sel: "committed noocs_occ noocs_vir opts = take n occs @ take m virs"
    using assms(1,2)
    by (simp add: committed_def n_fix_def n_def m_def occs_def virs_def od_def vd_def)
  have ret: "find_active_space noocs_occ noocs_vir opts = Inr
     \<lparr>active = block_counts (length noocs_occ) (take n occs @ take m virs),
      nact = n + m,
      nact_occ = map_option (\<lambda>thr. n_thr occ_contribution (Some thr) od occs) (threshold_occ opts),
      nact_vir = map_option (\<lambda>thr. n_thr vir_contribution (Some thr) vd virs) (threshold_vir opts),
      sigma_o = fraction occ_contribution (threshold_occ opts) None od occs,
      sigma_v = fraction vir_contribution (threshold_vir opts) None vd virs,
      occ_denominator = od, vir_denominator = vd\<rparr>"
    using find_active_space_returns [of opts noocs_occ noocs_vir] assms
    unfolding add_counts_replicate sel total
    by (simp add: n_fix_def occs_def virs_def od_def vd_def)
  show ?thesis
    unfolding occs_def [symmetric] virs_def [symmetric] od_def [symmetric] vd_def [symmetric]
      n_def [symmetric] m_def [symmetric] ret
    by (cases "threshold_occ opts"; cases "threshold_vir opts")
      (simp_all add: n_fix_def n_def m_def fraction_def n_thr_def)
qed

lemma achieved_not_exceeding:
  assumes "0 \<le> thr"
  shows "\<not> qgt (fdiv (contribs c (take (thr_count c thr d 0 xs) xs)) d) thr"
proof (cases "thr_count c thr d 0 xs")
  case 0
  then show ?thesis using assms by (simp add: fdiv_def)
next
  case (Suc k)
  then have "thr_count c thr d 0 xs \<in> {1..thr_count c thr d 0 xs}" by simp
  then show ?thesis
    using thr_count_stops [of c thr d 0 xs] by simp
qed

lemma thr_count_commits_on_equality:
  "commits_on_equality c den thr noocs (thr_count c thr (pval den) 0 noocs)"
  unfolding commits_on_equality_def
proof (intro ballI impI)
  fix j
  assume j: "j \<in> {0..<length noocs}"
    and h: "(\<forall>m\<in>{1..j}. \<not> exceeds c den thr (take m noocs)) \<and>
        fdiv (contribs c (take (Suc j) noocs)) (pval den) = Finite thr"
  have "\<not> qgt (fdiv (0 + contribs c (take m noocs)) (pval den)) thr" if "m \<in> {1..Suc j}" for m
  proof (cases "m = Suc j")
    case True
    then show ?thesis using h by simp
  next
    case False
    then have "m \<in> {1..j}" using that by simp
    then show ?thesis using h by (simp add: exceeds_def)
  qed
  then have "Suc j \<le> thr_count c thr (pval den) 0 noocs"
    using j by (intro thr_count_ge) simp_all
  then show "j < thr_count c thr (pval den) 0 noocs" by simp
qed

lemma thr_count_stops_strictly:
  "stops_strictly c den thr noocs (thr_count c thr (pval den) 0 noocs)"
proof -
  have "fdiv x d \<noteq> Finite thr" if "qgt (fdiv x d) thr" for x d
    using that by auto
  then show ?thesis
    using thr_count_stops [of c thr "pval den" 0 noocs]
    by (auto simp: stops_strictly_def exceeds_def)
qed

section \<open>Independence of the order within a block\<close>

lemma occus_retag [simp]: "occus_of (retag x) = occus_of x"
  by (simp add: retag_def occus_of_def)

lemma irrep_retag [simp]: "irrep_of (retag x) = irrep_of x"
  by (simp add: retag_def irrep_of_def)

lemma retag_triple: "retag (irrep, occus, i) = (irrep, occus, 0)"
  by (simp add: retag_def irrep_of_def occus_of_def)

lemma threshold_loop_retag:
  "threshold_loop c thr den (map retag xs) st = threshold_loop c thr den xs st"
proof (induction xs arbitrary: st)
  case Nil
  show ?case by simp
next
  case (Cons x xs)
  obtain irrep occus i where x: "x = (irrep, occus, i)" by (cases x) auto
  obtain numerator act n where st: "st = (numerator, act, n)" by (cases st) auto
  show ?case
    by (simp add: x st retag_triple Cons.IH Let_def)
qed

lemma fixed_loop_retag:
  "fixed_loop c (map retag xs) ks st = fixed_loop c xs ks st"
proof (induction ks arbitrary: st)
  case Nil
  show ?case by simp
next
  case (Cons k ks)
  obtain numerator act where st: "st = (numerator, act)" by (cases st) auto
  show ?case
  proof (cases "k < length xs")
    case False
    then show ?thesis by (simp add: st)
  next
    case True
    obtain irrep occus i where x: "xs ! k = (irrep, occus, i)" by (cases "xs ! k") auto
    show ?thesis
      using True by (simp add: st x retag_triple Cons.IH)
  qed
qed

lemma select_retag:
  "select_threshold_occ opts (map retag xs) den fr = select_threshold_occ opts xs den fr"
  "select_threshold_vir opts (map retag xs) den fr = select_threshold_vir opts xs den fr"
  "select_fixed_occ opts (map retag xs) den fr = select_fixed_occ opts xs den fr"
  "select_fixed_vir opts (map retag xs) den fr = select_fixed_vir opts xs den fr"
  by (simp_all add: select_threshold_occ_def select_threshold_vir_def select_fixed_occ_def
      select_fixed_vir_def threshold_loop_retag fixed_loop_retag cong: option.case_cong)

lemma map_retag_insort:
  "map retag (insort_key occus_of x ys) = insort_key occus_of (retag x) (map retag ys)"
  by (induction ys) simp_all

lemma map_retag_sort:
  "map retag (sort_key occus_of xs) = sort_key occus_of (map retag xs)"
  by (induction xs) (simp_all add: map_retag_insort)

lemma sort_key_cong_filter:
  assumes "mset xs = mset ys"
    and "\<And>c. filter (\<lambda>x. f x = c) xs = filter (\<lambda>x. f x = c) ys"
  shows "sort_key f xs = sort_key f ys"
proof (rule properties_for_sort_key)
  show "mset (sort_key f ys) = mset xs"
    using assms(1) by simp
  show "sorted (map f (sort_key f ys))"
    by (rule sorted_sort_key)
  fix k
  have "filter (\<lambda>x. f k = f x) (sort_key f ys) = filter (\<lambda>x. f x = f k) (sort_key f ys)"
    by (rule filter_cong) auto
  also have "\<dots> = filter (\<lambda>x. f x = f k) ys"
    by (rule sort_key_stable)
  also have "\<dots> = filter (\<lambda>x. f x = f k) xs"
    by (rule assms(2) [symmetric])
  also have "\<dots> = filter (\<lambda>x. f k = f x) xs"
    by (rule filter_cong) auto
  finally show "filter (\<lambda>x. f k = f x) (sort_key f ys) = filter (\<lambda>x. f k = f x) xs" .
qed

lemma map_retag_tag_block_aux:
  "map (retag \<circ> (\<lambda>(i, occus). (s, occus, i))) (enumerate n arr) = map (\<lambda>occus. (s, occus, 0)) arr"
  by (induction arr arbitrary: n) (simp_all add: retag_triple)

lemma map_retag_tag_block: "map retag (tag_block s arr) = map (\<lambda>occus. (s, occus, 0)) arr"
  by (simp add: tag_block_def map_retag_tag_block_aux)

lemma filter_retag_block:
  assumes "mset a = mset b"
  shows "filter (\<lambda>x. occus_of x = c) (map retag (tag_block s a)) =
         filter (\<lambda>x. occus_of x = c) (map retag (tag_block s b))"
proof -
  have "filter (\<lambda>x. occus_of x = c) (map (\<lambda>occus. (s, occus, 0)) arr) =
      map (\<lambda>occus. (s, occus, 0)) (replicate (count (mset arr) c) c)" for arr :: "rat list"
  proof -
    have "filter (\<lambda>x. occus_of x = c) (map (\<lambda>occus. (s, occus, 0::nat)) arr) =
        map (\<lambda>occus. (s, occus, 0)) (filter ((=) c) arr)"
      by (induction arr) (auto simp: occus_of_def)
    then show ?thesis
      by (simp add: replicate_count_mset_eq_filter_eq)
  qed
  then show ?thesis
    using assms by (simp add: map_retag_tag_block)
qed

lemma same_blocks_tags:
  assumes "list_all2 (\<lambda>a b. mset a = mset b) bs bs'"
  shows "mset (map retag (tags s bs)) = mset (map retag (tags s bs')) \<and>
    (\<forall>c. filter (\<lambda>x. occus_of x = c) (map retag (tags s bs)) =
         filter (\<lambda>x. occus_of x = c) (map retag (tags s bs')))"
  using assms
proof (induction bs bs' arbitrary: s rule: list_all2_induct)
  case Nil
  show ?case by simp
next
  case (Cons a as b bs)
  have "mset (map retag (tag_block s a)) = mset (map retag (tag_block s b))"
    using Cons.hyps(1) by (simp add: map_retag_tag_block)
  then show ?case
    using Cons.IH [of "Suc s"] filter_retag_block [OF Cons.hyps(1), of _ s] by simp
qed

lemma same_blocks_sorted:
  assumes "list_all2 (\<lambda>a b. mset a = mset b) bs bs'"
  shows "map retag (sort_key occus_of (tags s bs)) = map retag (sort_key occus_of (tags s bs'))"
    and "map retag (rev (sort_key occus_of (rev (tags s bs)))) =
         map retag (rev (sort_key occus_of (rev (tags s bs'))))"
proof -
  note t = same_blocks_tags [OF assms, of s]
  show "map retag (sort_key occus_of (tags s bs)) = map retag (sort_key occus_of (tags s bs'))"
    unfolding map_retag_sort using t by (intro sort_key_cong_filter) simp_all
  have flip: "filter (\<lambda>x. occus_of x = c) (map retag (rev xs)) =
      rev (filter (\<lambda>x. occus_of x = c) (map retag xs))" for c xs
    by (simp add: rev_filter rev_map)
  have "sort_key occus_of (map retag (rev (tags s bs))) =
      sort_key occus_of (map retag (rev (tags s bs')))"
  proof (rule sort_key_cong_filter)
    show "mset (map retag (rev (tags s bs))) = mset (map retag (rev (tags s bs')))"
      using t by simp
    show "filter (\<lambda>x. occus_of x = c) (map retag (rev (tags s bs))) =
        filter (\<lambda>x. occus_of x = c) (map retag (rev (tags s bs')))" for c
      unfolding flip using t by simp
  qed
  then show "map retag (rev (sort_key occus_of (rev (tags s bs)))) =
      map retag (rev (sort_key occus_of (rev (tags s bs'))))"
    by (simp add: rev_map [symmetric] map_retag_sort del: rev_rev_ident)
qed

lemma same_blocks_blocks:
  assumes "same_blocks noocs_occ noocs_occ'" and "same_blocks noocs_vir noocs_vir'"
  shows "list_all2 (\<lambda>a b. mset a = mset b)
           (occ_blocks noocs_occ noocs_vir) (occ_blocks noocs_occ' noocs_vir')"
    and "list_all2 (\<lambda>a b. mset a = mset b)
           (vir_blocks noocs_occ noocs_vir) (vir_blocks noocs_occ' noocs_vir')"
proof -
  note o = assms(1) [unfolded same_blocks_def] and v = assms(2) [unfolded same_blocks_def]
  have lo: "length noocs_occ = length noocs_occ'" and lv: "length noocs_vir = length noocs_vir'"
    using o v by (simp_all add: list_all2_lengthD)
  have hd_occ: "mset (hd noocs_occ) = mset (hd noocs_occ')"
    using o by (cases noocs_occ; cases noocs_occ') simp_all
  have hd_vir: "mset (hd noocs_vir) = mset (hd noocs_vir')"
    using v by (cases noocs_vir; cases noocs_vir') simp_all
  have nth_occ: "mset (noocs_occ ! i) = mset (noocs_occ' ! i)" if "i < length noocs_occ" for i
    using o that by (simp add: list_all2_conv_all_nth)
  have nth_vir: "mset (noocs_vir ! i) = mset (noocs_vir' ! i)" if "i < length noocs_vir" for i
    using v that by (simp add: list_all2_conv_all_nth)
  show "list_all2 (\<lambda>a b. mset a = mset b)
      (occ_blocks noocs_occ noocs_vir) (occ_blocks noocs_occ' noocs_vir')"
    using lo lv hd_occ nth_occ by (simp add: occ_blocks_def list_all2_conv_all_nth)
  show "list_all2 (\<lambda>a b. mset a = mset b)
      (vir_blocks noocs_occ noocs_vir) (vir_blocks noocs_occ' noocs_vir')"
    using lo lv hd_vir nth_vir by (simp add: vir_blocks_def list_all2_conv_all_nth)
qed

lemma contribs_retag: "contribs c (map retag xs) = contribs c xs"
  by (induction xs) simp_all

lemma den_ok_unique:
  assumes "den_ok c d xs" and "den_ok c d' ys" and "map retag xs = map retag ys"
  shows "d = d'"
proof -
  have "contribs c xs = contribs c ys"
    using assms(3) contribs_retag [of c xs] contribs_retag [of c ys] by simp
  moreover have "xs = [] \<longleftrightarrow> ys = []"
    using assms(3) by (metis map_is_Nil_conv)
  ultimately show ?thesis
    using assms(1,2) by (auto simp: den_ok_def)
qed

lemma noocs_as_tags:
  "noocs_occupied noocs_occ noocs_vir = sort_key occus_of (tags 0 (occ_blocks noocs_occ noocs_vir))"
  "noocs_virtual noocs_occ noocs_vir =
     rev (sort_key occus_of (rev (tags 0 (vir_blocks noocs_occ noocs_vir))))"
  using spectra_closed [of noocs_occ noocs_vir]
  by (auto simp: noocs_occupied_def noocs_virtual_def)

lemma find_active_space_retag:
  "find_active_space noocs_occ noocs_vir opts =
     then_do (select_threshold_occ opts (map retag (noocs_occupied noocs_occ noocs_vir))
                (occ_den noocs_occ noocs_vir) (initial_frame noocs_occ)) (\<lambda>fr1.
     then_do (select_threshold_vir opts (map retag (noocs_virtual noocs_occ noocs_vir))
                (vir_den noocs_occ noocs_vir) fr1) (\<lambda>fr2.
     then_do (select_fixed_occ opts (map retag (noocs_occupied noocs_occ noocs_vir))
                (occ_den noocs_occ noocs_vir) fr2) (\<lambda>fr3.
     then_do (select_fixed_vir opts (map retag (noocs_virtual noocs_occ noocs_vir))
                (vir_den noocs_occ noocs_vir) fr3) (\<lambda>fr4.
     Inr (make_results noocs_occ noocs_vir fr4)))))"
  unfolding select_retag find_active_space_def ..

section \<open>Runs on the example inputs\<close>

text \<open>The definitions to unfold when the selector is run on a concrete input.\<close>

lemmas fas_eval = find_active_space_def then_do_def select_threshold_occ_def
  select_threshold_vir_def select_fixed_occ_def select_fixed_vir_def noocs_occupied_def
  noocs_virtual_def occ_den_def vir_den_def spectra_def tag_block_def py_sum_def
  initial_frame_def make_results_def occus_of_def irrep_of_def occ_contribution_def
  vir_contribution_def fdiv_def upt_conv_Cons

lemma ex_sorted:
  "noocs_occupied ex_occ ex_vir = [(0, 1/2, 0), (1, 3/4, 0), (0, 9/10, 1)]"
  "noocs_virtual ex_occ ex_vir = [(1, 3/20, 0), (0, 1/10, 0), (0, 1/20, 1)]"
  by (simp_all add: fas_eval ex_occ_def ex_vir_def)

lemma ex_threshold_occ_only_run:
  "find_active_space ex_occ ex_vir ex_threshold_occ_only =
     Inr \<lparr>active = [1, 1], nact = 2, nact_occ = Some 2, nact_vir = None,
          sigma_o = Some (Finite (15/17)), sigma_v = None,
          occ_denominator = NpFloat (17/20), vir_denominator = NpFloat (3/10)\<rparr>"
  by (simp add: fas_eval ex_occ_def ex_vir_def ex_threshold_occ_only_def)

lemma ex_zero_denominators:
  "pval (occ_den ex_full_occ ex_zero_vir) = 0" "pval (vir_den ex_full_occ ex_zero_vir) = 0"
  "noocs_occupied ex_full_occ ex_zero_vir = [(0, 1, 0), (0, 1, 1)]"
  "noocs_virtual ex_full_occ ex_zero_vir = [(0, 0, 0)]"
  by (simp_all add: fas_eval ex_full_occ_def ex_zero_vir_def)

lemma ex_mixed_denominators:
  "pval (occ_den ex_full_occ ex_half_vir) = 0" "pval (vir_den ex_full_occ ex_half_vir) \<noteq> 0"
  "noocs_occupied ex_full_occ ex_half_vir \<noteq> []" "noocs_virtual ex_full_occ ex_half_vir \<noteq> []"
  by (simp_all add: fas_eval ex_full_occ_def ex_half_vir_def)

lemma ex_no_vir_empty:
  "pval (vir_den ex_occ ex_no_vir) = 0" "noocs_virtual ex_occ ex_no_vir = []"
  by (simp_all add: fas_eval ex_occ_def ex_no_vir_def)


section \<open>Properties of the selector\<close>




text \<open>
  C2 (as amended). In fixed-count mode, for every count \<open>k\<close> not exceeding the number of
  orbitals of a manifold that has at least one orbital, the call returns, takes exactly
  the first \<open>k\<close> orbitals of the manifold's sorted sequence without any threshold test,
  so that the per-block active counts are the numbers of block tags among the top
  \<open>k\<close> sorted entries (of both manifolds together) and the total is the sum of the
  counts, and it reports the fraction of the taken orbitals.
\<close>

theorem fixed_count_selection:
  assumes "threshold_occ opts = None" and "threshold_vir opts = None"
    and "\<forall>k. num_act_occ opts = Some k \<longrightarrow>
           k \<le> length (noocs_occupied noocs_occ noocs_vir) \<and> noocs_occupied noocs_occ noocs_vir \<noteq> []"
    and "\<forall>k. num_act_vir opts = Some k \<longrightarrow>
           k \<le> length (noocs_virtual noocs_occ noocs_vir) \<and> noocs_virtual noocs_occ noocs_vir \<noteq> []"
  shows "\<exists>r k_occ k_vir.
     find_active_space noocs_occ noocs_vir opts = Inr r \<and>
     active r = block_counts (length noocs_occ)
       (take k_occ (noocs_occupied noocs_occ noocs_vir) @ take k_vir (noocs_virtual noocs_occ noocs_vir)) \<and>
     length (take k_occ (noocs_occupied noocs_occ noocs_vir)) = k_occ \<and>
     length (take k_vir (noocs_virtual noocs_occ noocs_vir)) = k_vir \<and>
     nact r = k_occ + k_vir \<and>
     (case num_act_occ opts of
        None \<Rightarrow> k_occ = 0 \<and> sigma_o r = None
      | Some k \<Rightarrow> k_occ = k \<and>
          sigma_o r = Some (fdiv (contribs occ_contribution (take k (noocs_occupied noocs_occ noocs_vir)))
                              (pval (occ_den noocs_occ noocs_vir)))) \<and>
     (case num_act_vir opts of
        None \<Rightarrow> k_vir = 0 \<and> sigma_v r = None
      | Some k \<Rightarrow> k_vir = k \<and>
          sigma_v r = Some (fdiv (contribs vir_contribution (take k (noocs_virtual noocs_occ noocs_vir)))
                              (pval (vir_den noocs_occ noocs_vir))))"
proof -
  define occs where "occs = noocs_occupied noocs_occ noocs_vir"
  define virs where "virs = noocs_virtual noocs_occ noocs_vir"
  define od where "od = occ_den noocs_occ noocs_vir"
  define vd where "vd = vir_den noocs_occ noocs_vir"
  define k_occ where "k_occ = n_fix (num_act_occ opts)"
  define k_vir where "k_vir = n_fix (num_act_vir opts)"
  have ko: "k_occ \<le> length occs" and kv: "k_vir \<le> length virs"
    using assms(3,4) by (auto simp: k_occ_def k_vir_def n_fix_def occs_def virs_def split: option.split)
  have irr: "\<forall>y\<in>set (take k_occ occs @ take k_vir virs). irrep_of y < length noocs_occ"
    using irrep_noocs_occupied [of noocs_occ noocs_vir] irrep_noocs_virtual [of noocs_occ noocs_vir]
    by (auto simp: occs_def virs_def dest: in_set_takeD)
  have total: "sum_list (block_counts (length noocs_occ) (take k_occ occs @ take k_vir virs)) = k_occ + k_vir"
    using sum_list_block_counts [OF irr] ko kv by simp
  have ret: "find_active_space noocs_occ noocs_vir opts = Inr
     \<lparr>active = block_counts (length noocs_occ) (take k_occ occs @ take k_vir virs),
      nact = sum_list (block_counts (length noocs_occ) (take k_occ occs @ take k_vir virs)),
      nact_occ = None, nact_vir = None,
      sigma_o = fraction occ_contribution None (num_act_occ opts) od occs,
      sigma_v = fraction vir_contribution None (num_act_vir opts) vd virs,
      occ_denominator = od, vir_denominator = vd\<rparr>"
    using find_active_space_returns [of opts noocs_occ noocs_vir] assms ko kv
    by (auto simp: n_thr_def committed_def add_counts_replicate occs_def virs_def od_def vd_def
        k_occ_def k_vir_def)
  show ?thesis
    unfolding occs_def [symmetric] virs_def [symmetric] od_def [symmetric] vd_def [symmetric]
    apply (rule exI [of _ "\<lparr>active = block_counts (length noocs_occ) (take k_occ occs @ take k_vir virs),
      nact = sum_list (block_counts (length noocs_occ) (take k_occ occs @ take k_vir virs)),
      nact_occ = None, nact_vir = None,
      sigma_o = fraction occ_contribution None (num_act_occ opts) od occs,
      sigma_v = fraction vir_contribution None (num_act_vir opts) vd virs,
      occ_denominator = od, vir_denominator = vd\<rparr>"])
    apply (rule exI [of _ k_occ], rule exI [of _ k_vir])
    using ret total ko kv
    apply (simp add: k_occ_def k_vir_def n_thr_def fraction_def n_fix_def split: option.split)
    done
qed

theorem fixed_count_selection_witness:
  "threshold_occ ex_fixed = None \<and> threshold_vir ex_fixed = None \<and>
   num_act_occ ex_fixed = Some 2 \<and> num_act_vir ex_fixed = Some 1 \<and>
   2 \<le> length (noocs_occupied ex_occ ex_vir) \<and> 1 \<le> length (noocs_virtual ex_occ ex_vir) \<and>
   (\<exists>r k_occ k_vir.
     find_active_space ex_occ ex_vir ex_fixed = Inr r \<and>
     active r = block_counts (length ex_occ)
       (take k_occ (noocs_occupied ex_occ ex_vir) @ take k_vir (noocs_virtual ex_occ ex_vir)) \<and>
     length (take k_occ (noocs_occupied ex_occ ex_vir)) = k_occ \<and>
     length (take k_vir (noocs_virtual ex_occ ex_vir)) = k_vir \<and>
     nact r = k_occ + k_vir \<and>
     (case num_act_occ ex_fixed of
        None \<Rightarrow> k_occ = 0 \<and> sigma_o r = None
      | Some k \<Rightarrow> k_occ = k \<and>
          sigma_o r = Some (fdiv (contribs occ_contribution (take k (noocs_occupied ex_occ ex_vir)))
                              (pval (occ_den ex_occ ex_vir)))) \<and>
     (case num_act_vir ex_fixed of
        None \<Rightarrow> k_vir = 0 \<and> sigma_v r = None
      | Some k \<Rightarrow> k_vir = k \<and>
          sigma_v r = Some (fdiv (contribs vir_contribution (take k (noocs_virtual ex_occ ex_vir)))
                              (pval (vir_den ex_occ ex_vir)))))"
proof -
  have h1: "threshold_occ ex_fixed = None" and h2: "threshold_vir ex_fixed = None"
    and h3: "num_act_occ ex_fixed = Some 2" and h4: "num_act_vir ex_fixed = Some 1"
    by (simp_all add: ex_fixed_def)
  have h5: "2 \<le> length (noocs_occupied ex_occ ex_vir)"
    and h6: "1 \<le> length (noocs_virtual ex_occ ex_vir)"
    by (simp_all add: ex_sorted)
  have a3: "\<forall>k. num_act_occ ex_fixed = Some k \<longrightarrow>
      k \<le> length (noocs_occupied ex_occ ex_vir) \<and> noocs_occupied ex_occ ex_vir \<noteq> []"
    using h5 by (simp add: h3 ex_sorted)
  have a4: "\<forall>k. num_act_vir ex_fixed = Some k \<longrightarrow>
      k \<le> length (noocs_virtual ex_occ ex_vir) \<and> noocs_virtual ex_occ ex_vir \<noteq> []"
    using h6 by (simp add: h4 ex_sorted)
  show ?thesis
    using h1 h2 h3 h4 h5 h6 fixed_count_selection [of ex_fixed ex_occ ex_vir, OF h1 h2 a3 a4]
    by blast
qed

theorem fixed_count_selection_counterexample:
  "num_act_occ ex_fixed_none_vir = Some 1 \<and> length (noocs_occupied ex_occ ex_no_vir) = 3 \<and>
   num_act_vir ex_fixed_none_vir = Some 0 \<and> noocs_virtual ex_occ ex_no_vir = [] \<and>
   find_active_space ex_occ ex_no_vir ex_fixed_none_vir = Inl ZeroDivisionError"
  by (simp add: fas_eval ex_occ_def ex_no_vir_def ex_fixed_none_vir_def)

text \<open>
  C3 (as amended). Take a threshold-mode call. If a manifold that has a threshold has no
  orbital at all, the call fails with \<^verbatim>\<open>ZeroDivisionError\<close>: numerator and
  denominator are then the Python integer 0. Otherwise the call does not fail, whatever
  the denominators are: for each manifold that has a threshold and whose denominator is
  zero, occupied or virtual, the division is a \<^verbatim>\<open>float64\<close> division by zero, and the
  achieved fraction the call returns for that manifold is \<^verbatim>\<open>nan\<close> or an infinity.
\<close>

theorem zero_denominator_threshold:
  assumes "num_act_occ opts = None" and "num_act_vir opts = None"
  shows "if (threshold_occ opts \<noteq> None \<and> noocs_occupied noocs_occ noocs_vir = []) \<or>
            (threshold_vir opts \<noteq> None \<and> noocs_virtual noocs_occ noocs_vir = [])
         then find_active_space noocs_occ noocs_vir opts = Inl ZeroDivisionError
         else (\<exists>r. find_active_space noocs_occ noocs_vir opts = Inr r \<and>
                (threshold_occ opts \<noteq> None \<and> pval (occ_den noocs_occ noocs_vir) = 0 \<longrightarrow>
                   sigma_o r \<in> {Some NaN, Some PosInf, Some NegInf}) \<and>
                (threshold_vir opts \<noteq> None \<and> pval (vir_den noocs_occ noocs_vir) = 0 \<longrightarrow>
                   sigma_v r \<in> {Some NaN, Some PosInf, Some NegInf}))"
proof (cases "(threshold_occ opts \<noteq> None \<and> noocs_occupied noocs_occ noocs_vir = []) \<or>
            (threshold_vir opts \<noteq> None \<and> noocs_virtual noocs_occ noocs_vir = [])")
  case True
  then show ?thesis
    using threshold_on_empty_manifold [OF True] by simp
next
  case False
  have "find_active_space noocs_occ noocs_vir opts = Inr
     \<lparr>active = add_counts (replicate (length noocs_occ) 0) (committed noocs_occ noocs_vir opts),
      nact = sum_list (add_counts (replicate (length noocs_occ) 0) (committed noocs_occ noocs_vir opts)),
      nact_occ = map_option (\<lambda>thr. n_thr occ_contribution (Some thr) (occ_den noocs_occ noocs_vir)
                        (noocs_occupied noocs_occ noocs_vir)) (threshold_occ opts),
      nact_vir = map_option (\<lambda>thr. n_thr vir_contribution (Some thr) (vir_den noocs_occ noocs_vir)
                        (noocs_virtual noocs_occ noocs_vir)) (threshold_vir opts),
      sigma_o = fraction occ_contribution (threshold_occ opts) (num_act_occ opts)
                      (occ_den noocs_occ noocs_vir) (noocs_occupied noocs_occ noocs_vir),
      sigma_v = fraction vir_contribution (threshold_vir opts) (num_act_vir opts)
                      (vir_den noocs_occ noocs_vir) (noocs_virtual noocs_occ noocs_vir),
      occ_denominator = occ_den noocs_occ noocs_vir,
      vir_denominator = vir_den noocs_occ noocs_vir\<rparr>"
    using False assms(1,2) by (intro find_active_space_returns) (auto simp: n_fix_def)
  moreover have "threshold_occ opts \<noteq> None \<Longrightarrow> pval (occ_den noocs_occ noocs_vir) = 0 \<Longrightarrow>
      fraction occ_contribution (threshold_occ opts) (num_act_occ opts)
        (occ_den noocs_occ noocs_vir) (noocs_occupied noocs_occ noocs_vir)
      \<in> {Some NaN, Some PosInf, Some NegInf}"
    using fdiv_by_zero by (auto simp: fraction_def)
  moreover have "threshold_vir opts \<noteq> None \<Longrightarrow> pval (vir_den noocs_occ noocs_vir) = 0 \<Longrightarrow>
      fraction vir_contribution (threshold_vir opts) (num_act_vir opts)
        (vir_den noocs_occ noocs_vir) (noocs_virtual noocs_occ noocs_vir)
      \<in> {Some NaN, Some PosInf, Some NegInf}"
    using fdiv_by_zero by (auto simp: fraction_def)
  ultimately show ?thesis
    using False by simp
qed

theorem zero_denominator_threshold_witness:
  "num_act_occ ex_thresholds = None \<and> num_act_vir ex_thresholds = None \<and>
   threshold_occ ex_thresholds \<noteq> None \<and> threshold_vir ex_thresholds \<noteq> None \<and>
   pval (occ_den ex_full_occ ex_half_vir) = 0 \<and> pval (vir_den ex_full_occ ex_half_vir) \<noteq> 0 \<and>
   noocs_occupied ex_full_occ ex_half_vir \<noteq> [] \<and> noocs_virtual ex_full_occ ex_half_vir \<noteq> [] \<and>
   (\<exists>r. find_active_space ex_full_occ ex_half_vir ex_thresholds = Inr r \<and>
      sigma_o r \<in> {Some NaN, Some PosInf, Some NegInf}) \<and>
   threshold_vir ex_threshold_vir_only \<noteq> None \<and>
   num_act_occ ex_threshold_vir_only = None \<and> num_act_vir ex_threshold_vir_only = None \<and>
   noocs_virtual ex_occ ex_no_vir = [] \<and>
   find_active_space ex_occ ex_no_vir ex_threshold_vir_only = Inl ZeroDivisionError"
proof -
  have a: "num_act_occ ex_thresholds = None" "num_act_vir ex_thresholds = None"
    "threshold_occ ex_thresholds \<noteq> None" "threshold_vir ex_thresholds \<noteq> None"
    by (simp_all add: ex_thresholds_def)
  have b: "noocs_occupied ex_full_occ ex_half_vir \<noteq> []" "noocs_virtual ex_full_occ ex_half_vir \<noteq> []"
    "pval (occ_den ex_full_occ ex_half_vir) = 0" "pval (vir_den ex_full_occ ex_half_vir) \<noteq> 0"
    by (simp_all add: ex_mixed_denominators)
  have c: "threshold_vir ex_threshold_vir_only \<noteq> None"
    "num_act_occ ex_threshold_vir_only = None" "num_act_vir ex_threshold_vir_only = None"
    by (simp_all add: ex_threshold_vir_only_def)
  have first: "\<exists>r. find_active_space ex_full_occ ex_half_vir ex_thresholds = Inr r \<and>
      sigma_o r \<in> {Some NaN, Some PosInf, Some NegInf}"
    using zero_denominator_threshold [of ex_thresholds ex_full_occ ex_half_vir, OF a(1) a(2)] a b
    by auto
  have second: "find_active_space ex_occ ex_no_vir ex_threshold_vir_only = Inl ZeroDivisionError"
    using zero_denominator_threshold [of ex_threshold_vir_only ex_occ ex_no_vir, OF c(2) c(3)]
      c ex_no_vir_empty(2)
    by simp
  show ?thesis
    using a b c first second ex_no_vir_empty(2) by blast
qed

theorem zero_denominator_threshold_counterexample:
  "pval (occ_den ex_full_occ ex_zero_vir) = 0 \<and> pval (vir_den ex_full_occ ex_zero_vir) = 0 \<and>
   find_active_space ex_full_occ ex_zero_vir ex_thresholds =
     Inr \<lparr>active = [3], nact = 3, nact_occ = Some 2, nact_vir = Some 1,
          sigma_o = Some NaN, sigma_v = Some NaN,
          occ_denominator = NpFloat 0, vir_denominator = NpFloat 0\<rparr>"
  by (simp add: fas_eval ex_full_occ_def ex_zero_vir_def ex_thresholds_def)




text \<open>
  C5. After the sort step the occupied sequence is non-decreasing by occupation and the
  virtual sequence is non-increasing by occupation, whatever the order of the input
  spectra; both are rearrangements of the tagged input, so the occupied orbitals with
  the least occupation and the virtual orbitals with the most occupation come first in
  the lists the selection loops walk through.
\<close>

theorem sorted_spectra:
  "sorted (map occus_of (noocs_occupied noocs_occ noocs_vir)) \<and>
   sorted_wrt (\<lambda>a b. b \<le> a) (map occus_of (noocs_virtual noocs_occ noocs_vir)) \<and>
   mset (noocs_occupied noocs_occ noocs_vir) = mset (fst (spectra noocs_occ noocs_vir)) \<and>
   mset (noocs_virtual noocs_occ noocs_vir) = mset (fst (snd (spectra noocs_occ noocs_vir)))"
proof -
  have "sorted_wrt (\<lambda>a b. b \<le> a) (rev (map occus_of (sort_key occus_of xs)))" for xs :: "orb list"
    unfolding sorted_wrt_rev using sorted_sort_key [of occus_of xs] by simp
  then show ?thesis
    by (simp add: noocs_occupied_def noocs_virtual_def rev_map)
qed

text \<open>
  C6. Take two threshold-mode calls on the same pair of spectra with nonzero
  denominators, the second with thresholds that are not smaller than those of the first.
  Both calls return, the active count of neither manifold decreases (and so the total
  does not), and the achieved fraction of a manifold does not exceed its requested
  threshold, thresholds being non-negative as the selection criteria have them.
\<close>

theorem threshold_monotone:
  assumes "pval (occ_den noocs_occ noocs_vir) \<noteq> 0" and "pval (vir_den noocs_occ noocs_vir) \<noteq> 0"
    and "num_act_occ opts = None" and "num_act_vir opts = None"
    and "num_act_occ opts' = None" and "num_act_vir opts' = None"
    and "rel_option (\<le>) (threshold_occ opts) (threshold_occ opts')"
    and "rel_option (\<le>) (threshold_vir opts) (threshold_vir opts')"
  shows "\<exists>r r'. find_active_space noocs_occ noocs_vir opts = Inr r \<and>
     find_active_space noocs_occ noocs_vir opts' = Inr r' \<and>
     rel_option (\<le>) (nact_occ r) (nact_occ r') \<and>
     rel_option (\<le>) (nact_vir r) (nact_vir r') \<and>
     nact r \<le> nact r' \<and>
     (\<forall>thr. threshold_occ opts = Some thr \<and> 0 \<le> thr \<longrightarrow>
        (\<exists>s. sigma_o r = Some s \<and> \<not> qgt s thr)) \<and>
     (\<forall>thr. threshold_vir opts = Some thr \<and> 0 \<le> thr \<longrightarrow>
        (\<exists>s. sigma_v r = Some s \<and> \<not> qgt s thr))"
proof -
  define occs where "occs = noocs_occupied noocs_occ noocs_vir"
  define virs where "virs = noocs_virtual noocs_occ noocs_vir"
  define od where "od = occ_den noocs_occ noocs_vir"
  define vd where "vd = vir_den noocs_occ noocs_vir"
  have ne: "occs \<noteq> []" "virs \<noteq> []"
    using assms(1,2) den_ok_pval [OF occ_den_ok [of noocs_occ noocs_vir]]
      den_ok_pval [OF vir_den_ok [of noocs_occ noocs_vir]]
    by (auto simp: occs_def virs_def)
  note r = threshold_mode_returns [of opts noocs_occ noocs_vir, OF assms(3,4),
      folded occs_def virs_def od_def vd_def]
  note r' = threshold_mode_returns [of opts' noocs_occ noocs_vir, OF assms(5,6),
      folded occs_def virs_def od_def vd_def]
  have mono_occ: "n_thr occ_contribution (threshold_occ opts) od occs \<le>
      n_thr occ_contribution (threshold_occ opts') od occs"
    using assms(7) by (cases "threshold_occ opts"; cases "threshold_occ opts'")
      (simp_all add: n_thr_def thr_count_mono)
  have mono_vir: "n_thr vir_contribution (threshold_vir opts) vd virs \<le>
      n_thr vir_contribution (threshold_vir opts') vd virs"
    using assms(8) by (cases "threshold_vir opts"; cases "threshold_vir opts'")
      (simp_all add: n_thr_def thr_count_mono)
  have rel_occ: "rel_option (\<le>)
      (map_option (\<lambda>thr. thr_count occ_contribution thr (pval od) 0 occs) (threshold_occ opts))
      (map_option (\<lambda>thr. thr_count occ_contribution thr (pval od) 0 occs) (threshold_occ opts'))"
    using assms(7) by (cases "threshold_occ opts"; cases "threshold_occ opts'")
      (simp_all add: thr_count_mono)
  have rel_vir: "rel_option (\<le>)
      (map_option (\<lambda>thr. thr_count vir_contribution thr (pval vd) 0 virs) (threshold_vir opts))
      (map_option (\<lambda>thr. thr_count vir_contribution thr (pval vd) 0 virs) (threshold_vir opts'))"
    using assms(8) by (cases "threshold_vir opts"; cases "threshold_vir opts'")
      (simp_all add: thr_count_mono)
  show ?thesis
    unfolding occs_def [symmetric] virs_def [symmetric] od_def [symmetric] vd_def [symmetric]
    using r r' ne mono_occ mono_vir rel_occ rel_vir
    by (simp add: achieved_not_exceeding add_mono)
qed

theorem threshold_monotone_witness:
  "pval (occ_den ex_occ ex_vir) \<noteq> 0 \<and> pval (vir_den ex_occ ex_vir) \<noteq> 0 \<and>
   num_act_occ ex_thresholds = None \<and> num_act_vir ex_thresholds = None \<and>
   num_act_occ ex_thresholds_raised = None \<and> num_act_vir ex_thresholds_raised = None \<and>
   rel_option (\<le>) (threshold_occ ex_thresholds) (threshold_occ ex_thresholds_raised) \<and>
   rel_option (\<le>) (threshold_vir ex_thresholds) (threshold_vir ex_thresholds_raised) \<and>
   (\<exists>r r'. find_active_space ex_occ ex_vir ex_thresholds = Inr r \<and>
     find_active_space ex_occ ex_vir ex_thresholds_raised = Inr r' \<and>
     rel_option (\<le>) (nact_occ r) (nact_occ r') \<and>
     rel_option (\<le>) (nact_vir r) (nact_vir r') \<and>
     nact r \<le> nact r' \<and>
     (\<forall>thr. threshold_occ ex_thresholds = Some thr \<and> 0 \<le> thr \<longrightarrow>
        (\<exists>s. sigma_o r = Some s \<and> \<not> qgt s thr)) \<and>
     (\<forall>thr. threshold_vir ex_thresholds = Some thr \<and> 0 \<le> thr \<longrightarrow>
        (\<exists>s. sigma_v r = Some s \<and> \<not> qgt s thr)))"
proof -
  have d: "pval (occ_den ex_occ ex_vir) \<noteq> 0" "pval (vir_den ex_occ ex_vir) \<noteq> 0"
    by (simp_all add: fas_eval ex_occ_def ex_vir_def)
  have f: "num_act_occ ex_thresholds = None" "num_act_vir ex_thresholds = None"
    "num_act_occ ex_thresholds_raised = None" "num_act_vir ex_thresholds_raised = None"
    by (simp_all add: ex_thresholds_def ex_thresholds_raised_def)
  have t: "rel_option (\<le>) (threshold_occ ex_thresholds) (threshold_occ ex_thresholds_raised)"
    "rel_option (\<le>) (threshold_vir ex_thresholds) (threshold_vir ex_thresholds_raised)"
    by (simp_all add: ex_thresholds_def ex_thresholds_raised_def)
  show ?thesis
    using d f t threshold_monotone [OF d f t] by blast
qed

text \<open>
  C7. Two calls whose occupied vectors, and whose virtual vectors, differ only by the
  order of the occupations within each block give the same outcome under the same
  criteria: the same result record (per-block active counts, totals, fractions and
  denominators) or the same failure. Equal occupation values are no exception: among
  equal values the stable sorts keep the blocks in their order, and orbitals of one
  block with the same value are interchangeable.
\<close>

theorem permutation_invariance:
  assumes "same_blocks noocs_occ noocs_occ'" and "same_blocks noocs_vir noocs_vir'"
  shows "find_active_space noocs_occ noocs_vir opts = find_active_space noocs_occ' noocs_vir' opts"
proof -
  note b = same_blocks_blocks [OF assms]
  have occs: "map retag (noocs_occupied noocs_occ noocs_vir) =
      map retag (noocs_occupied noocs_occ' noocs_vir')"
    unfolding noocs_as_tags by (rule same_blocks_sorted(1) [OF b(1)])
  have virs: "map retag (noocs_virtual noocs_occ noocs_vir) =
      map retag (noocs_virtual noocs_occ' noocs_vir')"
    unfolding noocs_as_tags by (rule same_blocks_sorted(2) [OF b(2)])
  have od: "occ_den noocs_occ noocs_vir = occ_den noocs_occ' noocs_vir'"
    by (rule den_ok_unique [OF occ_den_ok occ_den_ok occs])
  have vd: "vir_den noocs_occ noocs_vir = vir_den noocs_occ' noocs_vir'"
    by (rule den_ok_unique [OF vir_den_ok vir_den_ok virs])
  have len: "length noocs_occ = length noocs_occ'"
    using assms(1) by (simp add: same_blocks_def list_all2_lengthD)
  have fr: "initial_frame noocs_occ = initial_frame noocs_occ'"
    by (simp add: initial_frame_def len)
  have res: "make_results noocs_occ noocs_vir = make_results noocs_occ' noocs_vir'"
    by (simp add: make_results_def od vd fun_eq_iff)
  show ?thesis
    unfolding find_active_space_retag occs virs od vd fr res ..
qed

theorem permutation_invariance_witness:
  "same_blocks ex_tied_occ ex_tied_occ_permuted \<and> same_blocks ex_vir ex_vir_permuted \<and>
   find_active_space ex_tied_occ ex_vir ex_thresholds =
     find_active_space ex_tied_occ_permuted ex_vir_permuted ex_thresholds"
proof -
  have o: "same_blocks ex_tied_occ ex_tied_occ_permuted"
    by (simp add: same_blocks_def ex_tied_occ_def ex_tied_occ_permuted_def)
  have v: "same_blocks ex_vir ex_vir_permuted"
    by (simp add: same_blocks_def ex_vir_def ex_vir_permuted_def)
  show ?thesis
    using o v permutation_invariance [OF o v] by blast
qed

text \<open>
  C8 (as amended). Every successful call returns the per-block active counts, one entry
  per symmetry block of the occupied vector, the total active count, which is their sum,
  and the two denominators. The achieved fraction of a manifold is part of the result
  exactly when a threshold or a fixed count was supplied for that manifold, and the
  manifold's own active count is part of it whenever its threshold was supplied.
\<close>

theorem result_fields:
  assumes "find_active_space noocs_occ noocs_vir opts = Inr r"
  shows "length (active r) = length noocs_occ \<and> nact r = sum_list (active r) \<and>
    occ_denominator r = occ_den noocs_occ noocs_vir \<and>
    vir_denominator r = vir_den noocs_occ noocs_vir \<and>
    (sigma_o r \<noteq> None \<longleftrightarrow> threshold_occ opts \<noteq> None \<or> num_act_occ opts \<noteq> None) \<and>
    (sigma_v r \<noteq> None \<longleftrightarrow> threshold_vir opts \<noteq> None \<or> num_act_vir opts \<noteq> None) \<and>
    (threshold_occ opts \<noteq> None \<longrightarrow> nact_occ r \<noteq> None) \<and>
    (threshold_vir opts \<noteq> None \<longrightarrow> nact_vir r \<noteq> None)"
  using find_active_space_Inr [OF assms] by (auto simp: make_results_def)

theorem result_fields_witness:
  "find_active_space ex_occ ex_vir ex_threshold_occ_only =
     Inr \<lparr>active = [1, 1], nact = 2, nact_occ = Some 2, nact_vir = None,
          sigma_o = Some (Finite (15/17)), sigma_v = None,
          occ_denominator = NpFloat (17/20), vir_denominator = NpFloat (3/10)\<rparr> \<and>
   length [1, 1 :: nat] = length ex_occ \<and>
   NpFloat (17/20) = occ_den ex_occ ex_vir \<and> NpFloat (3/10) = vir_den ex_occ ex_vir \<and>
   threshold_occ ex_threshold_occ_only \<noteq> None \<and>
   threshold_vir ex_threshold_occ_only = None \<and> num_act_vir ex_threshold_occ_only = None"
proof -
  note run = ex_threshold_occ_only_run
  have opts: "threshold_occ ex_threshold_occ_only \<noteq> None"
    "threshold_vir ex_threshold_occ_only = None" "num_act_vir ex_threshold_occ_only = None"
    by (simp_all add: ex_threshold_occ_only_def)
  from result_fields [OF run]
  have "length [1, 1 :: nat] = length ex_occ \<and>
      NpFloat (17/20) = occ_den ex_occ ex_vir \<and> NpFloat (3/10) = vir_den ex_occ ex_vir"
    by simp
  with run opts show ?thesis by blast
qed

theorem result_fields_counterexample:
  "find_active_space ex_occ ex_vir ex_threshold_occ_only =
     Inr \<lparr>active = [1, 1], nact = 2, nact_occ = Some 2, nact_vir = None,
          sigma_o = Some (Finite (15/17)), sigma_v = None,
          occ_denominator = NpFloat (17/20), vir_denominator = NpFloat (3/10)\<rparr> \<and>
   find_active_space ex_occ ex_vir ex_fixed =
     Inr \<lparr>active = [1, 2], nact = 3, nact_occ = None, nact_vir = None,
          sigma_o = Some (Finite (15/17)), sigma_v = Some (Finite (1/2)),
          occ_denominator = NpFloat (17/20), vir_denominator = NpFloat (3/10)\<rparr>"
  by (simp add: fas_eval ex_occ_def ex_vir_def ex_threshold_occ_only_def ex_fixed_def)

text \<open>
  C9 (as amended). A call whose fixed count for a manifold exceeds the number of orbitals
  of that manifold never returns a result. It fails with the out-of-range error
  \<^verbatim>\<open>IndexError\<close> whenever every manifold for which a criterion is supplied has at
  least one orbital; otherwise an earlier division may already have failed.
\<close>

theorem fixed_count_overrun:
  assumes "(\<exists>k. num_act_occ opts = Some k \<and> length (noocs_occupied noocs_occ noocs_vir) < k) \<or>
           (\<exists>k. num_act_vir opts = Some k \<and> length (noocs_virtual noocs_occ noocs_vir) < k)"
  shows "(\<exists>e. find_active_space noocs_occ noocs_vir opts = Inl e) \<and>
    ((threshold_occ opts \<noteq> None \<or> num_act_occ opts \<noteq> None \<longrightarrow>
        noocs_occupied noocs_occ noocs_vir \<noteq> []) \<and>
     (threshold_vir opts \<noteq> None \<or> num_act_vir opts \<noteq> None \<longrightarrow>
        noocs_virtual noocs_occ noocs_vir \<noteq> []) \<longrightarrow>
     find_active_space noocs_occ noocs_vir opts = Inl IndexError)"
proof -
  define occs where "occs = noocs_occupied noocs_occ noocs_vir"
  define virs where "virs = noocs_virtual noocs_occ noocs_vir"
  define od where "od = occ_den noocs_occ noocs_vir"
  define vd where "vd = vir_den noocs_occ noocs_vir"
  define fr0 where "fr0 = initial_frame noocs_occ"
  have irrO: "\<forall>y\<in>set occs. irrep_of y < length noocs_occ"
    unfolding occs_def by (rule irrep_noocs_occupied)
  have irrV: "\<forall>y\<in>set virs. irrep_of y < length noocs_occ"
    unfolding virs_def by (rule irrep_noocs_virtual)
  have fr0: "length (f_active fr0) = length noocs_occ"
    by (simp add: fr0_def initial_frame_def)
  have over: "(\<exists>k. num_act_occ opts = Some k \<and> length occs < k) \<or>
      (\<exists>k. num_act_vir opts = Some k \<and> length virs < k)"
    using assms by (simp add: occs_def virs_def)
  have fails: "\<exists>e. find_active_space noocs_occ noocs_vir opts = Inl e"
  proof (cases "find_active_space noocs_occ noocs_vir opts")
    case (Inl e)
    then show ?thesis by blast
  next
    case (Inr r)
    from find_active_space_Inr [OF Inr] obtain fr2 fr3 fr where
      s3: "select_fixed_occ opts occs od fr2 = Inr fr3" and
      s4: "select_fixed_vir opts virs vd fr3 = Inr fr" and
      l2: "length (f_active fr2) = length noocs_occ" and
      l3: "length (f_active fr3) = length noocs_occ"
      unfolding occs_def virs_def od_def vd_def by blast
    from over show ?thesis
    proof
      assume "\<exists>k. num_act_occ opts = Some k \<and> length occs < k"
      then obtain k where "num_act_occ opts = Some k" "length occs < k" by blast
      then have "select_fixed_occ opts occs od fr2 = Inl IndexError"
        using irrO l2 by (intro select_fixed_occ_overrun) simp_all
      with s3 show ?thesis by simp
    next
      assume "\<exists>k. num_act_vir opts = Some k \<and> length virs < k"
      then obtain k where "num_act_vir opts = Some k" "length virs < k" by blast
      then have "select_fixed_vir opts virs vd fr3 = Inl IndexError"
        using irrV l3 by (intro select_fixed_vir_overrun) simp_all
      with s4 show ?thesis by simp
    qed
  qed
  have index: "find_active_space noocs_occ noocs_vir opts = Inl IndexError"
    if occ_ne: "threshold_occ opts \<noteq> None \<or> num_act_occ opts \<noteq> None \<longrightarrow> occs \<noteq> []"
      and vir_ne: "threshold_vir opts \<noteq> None \<or> num_act_vir opts \<noteq> None \<longrightarrow> virs \<noteq> []"
  proof -
    have odF: "occs \<noteq> [] \<Longrightarrow> is_float od"
      using den_ok_nonempty [OF occ_den_ok [of noocs_occ noocs_vir]]
      by (simp add: od_def occs_def)
    have vdF: "virs \<noteq> [] \<Longrightarrow> is_float vd"
      using den_ok_nonempty [OF vir_den_ok [of noocs_occ noocs_vir]]
      by (simp add: vd_def virs_def)
    obtain fr1 where s1: "select_threshold_occ opts occs od fr0 = Inr fr1"
      and l1: "length (f_active fr1) = length noocs_occ"
      using select_threshold_occ_returns [of occs fr0 opts od] irrO fr0 occ_ne odF by auto
    obtain fr2 where s2: "select_threshold_vir opts virs vd fr1 = Inr fr2"
      and l2: "length (f_active fr2) = length noocs_occ"
      using select_threshold_vir_returns [of virs fr1 opts vd] irrV l1 vir_ne vdF by auto
    have unfold: "find_active_space noocs_occ noocs_vir opts =
        then_do (select_fixed_occ opts occs od fr2) (\<lambda>fr3.
        then_do (select_fixed_vir opts virs vd fr3) (\<lambda>fr4.
        Inr (make_results noocs_occ noocs_vir fr4)))"
      unfolding find_active_space_def occs_def [symmetric] virs_def [symmetric]
        od_def [symmetric] vd_def [symmetric] fr0_def [symmetric]
      by (simp add: then_do_step [OF s1] then_do_step [OF s2])
    show ?thesis
    proof (cases "\<exists>k. num_act_occ opts = Some k \<and> length occs < k")
      case True
      then obtain k where "num_act_occ opts = Some k" "length occs < k" by blast
      then have "select_fixed_occ opts occs od fr2 = Inl IndexError"
        using irrO l2 by (intro select_fixed_occ_overrun) simp_all
      then show ?thesis
        unfolding unfold by (rule then_do_Inl)
    next
      case False
      then obtain k where k: "num_act_vir opts = Some k" "length virs < k"
        using over by blast
      have "\<forall>k. num_act_occ opts = Some k \<longrightarrow> k \<le> length occs \<and> is_float od"
        using False occ_ne odF by (auto simp: not_less)
      then obtain fr3 where s3: "select_fixed_occ opts occs od fr2 = Inr fr3"
        and l3: "length (f_active fr3) = length noocs_occ"
        using select_fixed_occ_returns [of occs fr2 opts od] irrO l2 by auto
      have "select_fixed_vir opts virs vd fr3 = Inl IndexError"
        using k irrV l3 by (intro select_fixed_vir_overrun) simp_all
      then show ?thesis
        unfolding unfold by (simp add: then_do_step [OF s3] then_do_Inl)
    qed
  qed
  show ?thesis
    using fails index by (simp add: occs_def virs_def)
qed

theorem fixed_count_overrun_witness:
  "num_act_vir ex_overrun = Some 4 \<and> length (noocs_virtual ex_occ ex_vir) < 4 \<and>
   noocs_occupied ex_occ ex_vir \<noteq> [] \<and> noocs_virtual ex_occ ex_vir \<noteq> [] \<and>
   find_active_space ex_occ ex_vir ex_overrun = Inl IndexError"
proof -
  have h: "num_act_vir ex_overrun = Some 4" "length (noocs_virtual ex_occ ex_vir) < 4"
    "noocs_occupied ex_occ ex_vir \<noteq> []" "noocs_virtual ex_occ ex_vir \<noteq> []"
    by (simp_all add: ex_overrun_def ex_sorted)
  then have "(\<exists>k. num_act_occ ex_overrun = Some k \<and> length (noocs_occupied ex_occ ex_vir) < k) \<or>
      (\<exists>k. num_act_vir ex_overrun = Some k \<and> length (noocs_virtual ex_occ ex_vir) < k)"
    by blast
  from fixed_count_overrun [OF this] h show ?thesis by blast
qed

theorem fixed_count_overrun_counterexample:
  "num_act_occ ex_overrun_after_threshold = Some 4 \<and>
   length (noocs_occupied ex_occ ex_no_vir) = 3 \<and>
   find_active_space ex_occ ex_no_vir ex_overrun_after_threshold = Inl ZeroDivisionError"
  by (simp add: fas_eval ex_occ_def ex_no_vir_def ex_overrun_after_threshold_def)

text \<open>
  C10. In threshold mode the stopping comparison is strict. An orbital whose tentative
  cumulative fraction equals the threshold exactly, all orbitals before it having been
  committed, is committed too (it is counted among the manifold's active orbitals), and
  the iteration goes on: the loop stops only at the first orbital whose tentative
  fraction is strictly greater than the threshold, which is then different from it.
\<close>

theorem threshold_comparison_strict:
  assumes "num_act_occ opts = None" and "num_act_vir opts = None"
    and "threshold_occ opts \<noteq> None \<Longrightarrow> noocs_occupied noocs_occ noocs_vir \<noteq> []"
    and "threshold_vir opts \<noteq> None \<Longrightarrow> noocs_virtual noocs_occ noocs_vir \<noteq> []"
  shows "\<exists>r. find_active_space noocs_occ noocs_vir opts = Inr r \<and>
     (\<forall>thr. threshold_occ opts = Some thr \<longrightarrow>
        (\<exists>n. nact_occ r = Some n \<and>
           commits_on_equality occ_contribution (occ_den noocs_occ noocs_vir) thr
             (noocs_occupied noocs_occ noocs_vir) n \<and>
           stops_at occ_contribution (occ_den noocs_occ noocs_vir) thr
             (noocs_occupied noocs_occ noocs_vir) n \<and>
           stops_strictly occ_contribution (occ_den noocs_occ noocs_vir) thr
             (noocs_occupied noocs_occ noocs_vir) n)) \<and>
     (\<forall>thr. threshold_vir opts = Some thr \<longrightarrow>
        (\<exists>n. nact_vir r = Some n \<and>
           commits_on_equality vir_contribution (vir_den noocs_occ noocs_vir) thr
             (noocs_virtual noocs_occ noocs_vir) n \<and>
           stops_at vir_contribution (vir_den noocs_occ noocs_vir) thr
             (noocs_virtual noocs_occ noocs_vir) n \<and>
           stops_strictly vir_contribution (vir_den noocs_occ noocs_vir) thr
             (noocs_virtual noocs_occ noocs_vir) n))"
  using threshold_mode_returns [OF assms]
  by (simp add: thr_count_commits_on_equality thr_count_stops_at thr_count_stops_strictly)

theorem threshold_comparison_strict_witness:
  "num_act_occ ex_thresholds = None \<and> num_act_vir ex_thresholds = None \<and>
   noocs_occupied ex_occ ex_vir \<noteq> [] \<and> noocs_virtual ex_occ ex_vir \<noteq> [] \<and>
   threshold_vir ex_thresholds = Some (1/2) \<and>
   fdiv (contribs vir_contribution (take (Suc 0) (noocs_virtual ex_occ ex_vir)))
     (pval (vir_den ex_occ ex_vir)) = Finite (1/2) \<and>
   (\<exists>r n. find_active_space ex_occ ex_vir ex_thresholds = Inr r \<and>
      nact_vir r = Some n \<and> 0 < n)"
proof -
  have h: "num_act_occ ex_thresholds = None" "num_act_vir ex_thresholds = None"
    "threshold_vir ex_thresholds = Some (1/2)"
    by (simp_all add: ex_thresholds_def)
  have ne: "noocs_occupied ex_occ ex_vir \<noteq> []" "noocs_virtual ex_occ ex_vir \<noteq> []"
    by (simp_all add: ex_sorted)
  have vd: "vir_den ex_occ ex_vir = NpFloat (3/10)"
    by (simp add: fas_eval ex_occ_def ex_vir_def)
  have eq: "fdiv (contribs vir_contribution (take (Suc 0) (noocs_virtual ex_occ ex_vir)))
     (pval (vir_den ex_occ ex_vir)) = Finite (1/2)"
    by (simp add: ex_sorted vd fdiv_def vir_contribution_def occus_of_def)
  from threshold_comparison_strict [of ex_thresholds ex_occ ex_vir, OF h(1) h(2) ne]
  obtain r n where r: "find_active_space ex_occ ex_vir ex_thresholds = Inr r"
    "nact_vir r = Some n"
    and c: "commits_on_equality vir_contribution (vir_den ex_occ ex_vir) (1/2)
      (noocs_virtual ex_occ ex_vir) n"
    using h(3) by blast
  have "0 \<in> {0..<length (noocs_virtual ex_occ ex_vir)}"
    by (simp add: ex_sorted)
  with c eq have "0 < n"
    unfolding commits_on_equality_def by fastforce
  with h ne eq r show ?thesis by blast
qed

end
